theory Spec2Isabelle
  imports Complex_Main "HOL-Library.AList" "HOL-Library.Log_Nat" "HOL-Library.Multiset"
begin

section \<open>Python's \<open>int(s, 16)\<close> and \<open>hex(n)\<close>\<close>

text \<open>
  \<open>app.py\<close> decodes every number it reads off the wire with \<open>int(s, 16)\<close> and encodes
  every block number it sends with \<open>hex(n)\<close>. A string is a list of code points below 256.
  \<open>int\<close> first maps every Unicode space to a blank and then skips blanks on both ends
  with \<open>Py_ISSPACE\<close>; below 256 the characters skipped are 9 to 13, 32, 0x85 and 0xA0.
\<close>

definition py_isspace :: "char \<Rightarrow> bool" where
  "py_isspace c \<longleftrightarrow> (of_char c :: nat) \<in> {9, 10, 11, 12, 13, 32, 133, 160}"

text \<open>\<open>_PyLong_DigitValue\<close>: the value of a digit in bases up to 36, and 37 for any other
  character.\<close>

definition digit_value :: "char \<Rightarrow> nat" where
  "digit_value c =
     (let n = (of_char c :: nat) in
      if 48 \<le> n \<and> n \<le> 57 then n - 48
      else if 97 \<le> n \<and> n \<le> 122 then n - 87
      else if 65 \<le> n \<and> n \<le> 90 then n - 55
      else 37)"

text \<open>
  The digit scan of \<open>long_from_string_base\<close> for base 16: it consumes hexadecimal digits
  and underscores, fails on a doubled or a trailing underscore, and stops at the first other
  character. \<open>prev\<close> is the character consumed last (NUL at the start). The result is
  the value read and the unread rest.
\<close>

fun scan_digits :: "nat \<Rightarrow> char \<Rightarrow> string \<Rightarrow> (nat \<times> string) option" where
  "scan_digits acc prev [] = (if prev = CHR ''_'' then None else Some (acc, []))"
| "scan_digits acc prev (c # cs) =
     (if c = CHR ''_'' then (if prev = CHR ''_'' then None else scan_digits acc c cs)
      else if digit_value c < 16 then scan_digits (acc * 16 + digit_value c) c cs
      else if prev = CHR ''_'' then None
      else Some (acc, c # cs))"

text \<open>
  \<open>PyLong_FromString\<close> with base 16: leading blanks, an optional sign, an optional
  \<open>0x\<close> or \<open>0X\<close> prefix with at most one underscore after it, no leading underscore, at
  least one digit, trailing blanks, and nothing else. \<open>None\<close> is \<open>ValueError\<close>.
\<close>

definition skip_sign :: "string \<Rightarrow> int \<times> string" where
  "skip_sign s =
     (case s of
        [] \<Rightarrow> (1, s)
      | c # r \<Rightarrow> if c = CHR ''+'' then (1, r)
                else if c = CHR ''-'' then (- 1, r)
                else (1, s))"

definition skip_prefix :: "string \<Rightarrow> string" where
  "skip_prefix s =
     (case s of
        c0 # c1 # r \<Rightarrow>
          if c0 = CHR ''0'' \<and> (c1 = CHR ''x'' \<or> c1 = CHR ''X'')
          then (case r of [] \<Rightarrow> r | u # r' \<Rightarrow> if u = CHR ''_'' then r' else r)
          else s
      | _ \<Rightarrow> s)"

definition py_int16 :: "string \<Rightarrow> int option" where
  "py_int16 s =
     (let (sign, s2) = skip_sign (dropWhile py_isspace s);
          s3 = skip_prefix s2
      in case s3 of
           [] \<Rightarrow> None
         | c # _ \<Rightarrow>
             if c = CHR ''_'' then None
             else (case scan_digits 0 (CHR 0x00) s3 of
                     None \<Rightarrow> None
                   | Some (v, rest) \<Rightarrow>
                       if rest = s3 then None
                       else if dropWhile py_isspace rest = [] then Some (sign * int v)
                       else None))"

text \<open>\<open>hex(n)\<close>: lower-case digits, no leading zeros, \<open>0x\<close> in front and the sign before it.\<close>

definition hex_digit :: "nat \<Rightarrow> char" where
  "hex_digit d = ''0123456789abcdef'' ! d"

function hex_nat :: "nat \<Rightarrow> string" where
  "hex_nat n = (if n < 16 then [hex_digit n] else hex_nat (n div 16) @ [hex_digit (n mod 16)])"
  by pat_completeness auto
termination
  by (relation "measure (\<lambda>n. n)") auto

declare hex_nat.simps [simp del]

definition hex :: "int \<Rightarrow> string" where
  "hex n = (if n < 0 then ''-0x'' @ hex_nat (nat (- n)) else ''0x'' @ hex_nat (nat n))"


section \<open>The JSON-RPC transport\<close>

text \<open>
  A member of a JSON object is missing, \<open>null\<close> or a value. The reply to
  \<open>eth_blockNumber\<close> is read only through its \<open>result\<close> member, a string; the reply to
  \<open>eth_getBlockByNumber\<close> through \<open>result\<close>, an object, and its \<open>timestamp\<close> member, a
  string. A batch reply is a list of objects read through \<open>id\<close> and \<open>result\<close> with
  \<open>dict.get\<close>, which gives \<open>None\<close> for a missing member as for \<open>null\<close>.
\<close>

datatype 'a field = Absent | Null | Val 'a

record request =
  req_id :: int
  req_to :: string
  req_data :: string
  req_block :: string

record response =
  resp_id :: "int option"
  resp_result :: "string option"

datatype rpc = Eth_blockNumber | Eth_getBlockByNumber string | Eth_call_batch "request list"

text \<open>
  The world is the trace of what has happened so far, oldest first: every call of
  \<open>call_rpc\<close> or \<open>call_rpc_batch\<close>, every \<open>requests.post\<close> and every \<open>time.sleep\<close>.
  The endpoint answers a post as a function of the payload and of the trace before it;
  \<open>None\<close> is a \<open>RequestException\<close> (connection error, timeout, or the status error
  of \<open>raise_for_status\<close>).
\<close>

datatype event = Call rpc | Post rpc | Sleep nat

record transport =
  blockNumber_reply :: "event list \<Rightarrow> string field option"
  getBlock_reply :: "string \<Rightarrow> event list \<Rightarrow> string field field option"
  batch_reply :: "request list \<Rightarrow> event list \<Rightarrow> response list option"

function call_rpc_loop ::
  "(event list \<Rightarrow> 'r option) \<Rightarrow> rpc \<Rightarrow> int \<Rightarrow> nat \<Rightarrow> int \<Rightarrow> event list
     \<Rightarrow> 'r option \<times> event list" where
  "call_rpc_loop post payload retries delay attempt w =
     (if attempt < retries then
        (case post w of
           Some r \<Rightarrow> (Some r, w @ [Post payload])
         | None \<Rightarrow>
             call_rpc_loop post payload retries delay (attempt + 1)
               (if attempt < retries - 1 then w @ [Post payload, Sleep delay]
                else w @ [Post payload]))
      else (None, w))"
  by pat_completeness auto
termination
  by (relation "measure (\<lambda>(post, payload, retries, delay, attempt, w). nat (retries - attempt))")
    auto

declare call_rpc_loop.simps [simp del]

definition call_rpc ::
  "(event list \<Rightarrow> 'r option) \<Rightarrow> rpc \<Rightarrow> int \<Rightarrow> nat \<Rightarrow> event list \<Rightarrow> 'r option \<times> event list" where
  "call_rpc post payload retries delay w =
     call_rpc_loop post payload retries delay 0 (w @ [Call payload])"

function call_rpc_batch_loop ::
  "(event list \<Rightarrow> 'r option) \<Rightarrow> rpc \<Rightarrow> int \<Rightarrow> nat \<Rightarrow> int \<Rightarrow> event list
     \<Rightarrow> 'r option \<times> event list" where
  "call_rpc_batch_loop post batch_payload retries delay attempt w =
     (if attempt < retries then
        (case post w of
           Some r \<Rightarrow> (Some r, w @ [Post batch_payload])
         | None \<Rightarrow>
             call_rpc_batch_loop post batch_payload retries delay (attempt + 1)
               (if attempt < retries - 1 then w @ [Post batch_payload, Sleep delay]
                else w @ [Post batch_payload]))
      else (None, w))"
  by pat_completeness auto
termination
  by (relation "measure (\<lambda>(post, payload, retries, delay, attempt, w). nat (retries - attempt))")
    auto

declare call_rpc_batch_loop.simps [simp del]

definition call_rpc_batch ::
  "(event list \<Rightarrow> 'r option) \<Rightarrow> rpc \<Rightarrow> int \<Rightarrow> nat \<Rightarrow> event list \<Rightarrow> 'r option \<times> event list" where
  "call_rpc_batch post batch_payload retries delay w =
     call_rpc_batch_loop post batch_payload retries delay 0 (w @ [Call batch_payload])"

section \<open>Resolving a date to a block\<close>

datatype py_error = TypeError | KeyError | ValueError | DateRangeError

text \<open>
  A \<open>datetime\<close> is modelled by its POSIX timestamp and a \<open>date\<close> by its day number since
  1970-01-01, which order as the Python values do. \<open>utcfromtimestamp\<close> raises outside
  the years 1 to 9999.
\<close>

definition utcfromtimestamp :: "int \<Rightarrow> int option" where
  "utcfromtimestamp ts =
     (if - 62135596800 \<le> ts \<and> ts \<le> 253402300799 then Some ts else None)"

definition date :: "int \<Rightarrow> int" where
  "date dt = dt div 86400"

function get_closest_block_timestamp_loop ::
  "transport \<Rightarrow> int \<Rightarrow> int \<Rightarrow> int \<Rightarrow> (int \<times> int) option \<Rightarrow> event list
     \<Rightarrow> (py_error + (int \<times> int) option) \<times> event list" where
  "get_closest_block_timestamp_loop tr target_date low high chosen w =
     (if low \<le> high then
        (let mid = (low + high) div 2;
             (block_data, w') =
               call_rpc (getBlock_reply tr (hex mid)) (Eth_getBlockByNumber (hex mid)) 3 1 w
         in case block_data of
              None \<Rightarrow> (Inr None, w')
            | Some Absent \<Rightarrow> (Inr None, w')
            | Some Null \<Rightarrow> (Inl TypeError, w')
            | Some (Val Absent) \<Rightarrow> (Inl KeyError, w')
            | Some (Val Null) \<Rightarrow> (Inl TypeError, w')
            | Some (Val (Val timestamp)) \<Rightarrow>
                (case py_int16 timestamp of
                   None \<Rightarrow> (Inl ValueError, w')
                 | Some block_timestamp \<Rightarrow>
                     (case utcfromtimestamp block_timestamp of
                        None \<Rightarrow> (Inl DateRangeError, w')
                      | Some block_datetime \<Rightarrow>
                          if date block_datetime = target_date
                          then (Inr (Some (mid, block_datetime)), w')
                          else if date block_datetime < target_date
                          then get_closest_block_timestamp_loop tr target_date (mid + 1) high
                                 (Some (mid, block_datetime)) w'
                          else get_closest_block_timestamp_loop tr target_date low (mid - 1)
                                 chosen w')))
      else (Inr chosen, w))"
  by pat_completeness auto
termination
  by (relation "measure (\<lambda>(tr, target_date, low, high, chosen, w). nat (high - low + 1))") auto

declare get_closest_block_timestamp_loop.simps [simp del]

definition get_closest_block_timestamp ::
  "transport \<Rightarrow> int \<Rightarrow> event list \<Rightarrow> (py_error + (int \<times> int) option) \<times> event list" where
  "get_closest_block_timestamp tr target_date w =
     (let (latest_block, w') = call_rpc (blockNumber_reply tr) Eth_blockNumber 3 1 w
      in case latest_block of
           None \<Rightarrow> (Inr None, w')
         | Some Absent \<Rightarrow> (Inr None, w')
         | Some Null \<Rightarrow> (Inl TypeError, w')
         | Some (Val result) \<Rightarrow>
             (case py_int16 result of
                None \<Rightarrow> (Inl ValueError, w')
              | Some latest_block_number \<Rightarrow>
                  get_closest_block_timestamp_loop tr target_date 0 latest_block_number None w'))"


section \<open>Reading the total supplies in one batch\<close>

record token =
  name :: string
  contract :: string
  decimals :: nat

definition TOKENS :: "token list" where
  "TOKENS =
     [\<lparr>name = ''USDC'', contract = ''0x3894085Ef7Ff0f0aeDf52E2A2704928d1Ec074F1'', decimals = 6\<rparr>,
      \<lparr>name = ''USDT'', contract = ''0xB75D0B03c06A926e488e2659DF1A861F860bD3d1'', decimals = 6\<rparr>,
      \<lparr>name = ''SFASTUSD'', contract = ''0x37a4dd9ced2b19cfe8fac251cd727b5787e45269'',
       decimals = 18\<rparr>]"

text \<open>
  The functions below take the token table as an argument; \<open>app.py\<close> reads the module
  constant \<open>TOKENS\<close>. A dictionary is an association list in insertion order, written with
  \<open>AList.update\<close> (replace the value of a key in place, or append the new key) and compared
  through \<open>map_of\<close>, as \<open>dict\<close> equality ignores the order.
\<close>

definition batch_payload :: "token list \<Rightarrow> int \<Rightarrow> request list" where
  "batch_payload tokens block_number =
     map (\<lambda>(i, token).
            \<lparr>req_id = int i, req_to = contract token, req_data = ''0x18160ddd'',
             req_block = hex block_number\<rparr>)
       (enumerate 0 tokens)"

definition id_to_token :: "token list \<Rightarrow> (int \<times> token) list" where
  "id_to_token tokens = map (\<lambda>(i, token). (int i, token)) (enumerate 0 tokens)"

definition decode_result :: "string option \<Rightarrow> int option" where
  "decode_result result_hex =
     (case result_hex of
        None \<Rightarrow> Some 0
      | Some s \<Rightarrow> if s = ''0x'' \<or> s = ''0x0'' then Some 0 else py_int16 s)"

fun decode_responses ::
  "(int \<times> token) list \<Rightarrow> response list \<Rightarrow> (string \<times> int option) list
     \<Rightarrow> (string \<times> int option) list" where
  "decode_responses id_to_tok [] token_supplies = token_supplies"
| "decode_responses id_to_tok (resp # responses) token_supplies =
     (case (case resp_id resp of None \<Rightarrow> None | Some i \<Rightarrow> map_of id_to_tok i) of
        None \<Rightarrow> decode_responses id_to_tok responses token_supplies
      | Some token_info \<Rightarrow>
          decode_responses id_to_tok responses
            (AList.update (name token_info) (decode_result (resp_result resp)) token_supplies))"

definition get_token_total_supplies ::
  "token list \<Rightarrow> transport \<Rightarrow> int \<Rightarrow> event list
     \<Rightarrow> (string \<times> int option) list \<times> event list" where
  "get_token_total_supplies tokens tr block_number w =
     (let payload = batch_payload tokens block_number;
          (responses, w') = call_rpc_batch (batch_reply tr payload) (Eth_call_batch payload) 3 1 w
      in case responses of
           None \<Rightarrow> (foldl (\<lambda>token_supplies token. AList.update (name token) None token_supplies)
                       [] tokens, w')
         | Some rs \<Rightarrow> (decode_responses (id_to_token tokens) rs [], w'))"

function get_token_total_supplies_with_retries_loop ::
  "token list \<Rightarrow> transport \<Rightarrow> int \<Rightarrow> int \<Rightarrow> nat \<Rightarrow> int \<Rightarrow> event list
     \<Rightarrow> (string \<times> int option) list option \<times> event list" where
  "get_token_total_supplies_with_retries_loop tokens tr block_number max_retries delay attempt w =
     (if attempt < max_retries then
        (let (supplies, w') = get_token_total_supplies tokens tr block_number w
         in if supplies \<noteq> [] \<and> list_all (\<lambda>supply. supply \<noteq> None) (map snd supplies)
            then (Some supplies, w')
            else get_token_total_supplies_with_retries_loop tokens tr block_number max_retries
                   delay (attempt + 1) (w' @ [Sleep delay]))
      else (None, w))"
  by pat_completeness auto
termination
  by (relation "measure (\<lambda>(tokens, tr, block_number, max_retries, delay, attempt, w).
                           nat (max_retries - attempt))") auto

declare get_token_total_supplies_with_retries_loop.simps [simp del]

definition get_token_total_supplies_with_retries ::
  "token list \<Rightarrow> transport \<Rightarrow> int \<Rightarrow> int \<Rightarrow> nat \<Rightarrow> event list
     \<Rightarrow> (string \<times> int option) list option \<times> event list" where
  "get_token_total_supplies_with_retries tokens tr block_number max_retries delay w =
     get_token_total_supplies_with_retries_loop tokens tr block_number max_retries delay 0 w"

section \<open>Auxiliary notions for the statements\<close>

text \<open>A character that the digit scan consumes as a hexadecimal digit.\<close>

definition is_hex :: "char \<Rightarrow> bool" where
  "is_hex c \<longleftrightarrow> digit_value c < 16 \<and> c \<noteq> CHR ''_''"

text \<open>\<open>spaced p s m\<close> is \<open>m\<close> copies of \<open>p\<close> with one \<open>s\<close> between each two.\<close>

fun spaced :: "'a \<Rightarrow> 'a \<Rightarrow> nat \<Rightarrow> 'a list" where
  "spaced p s 0 = []"
| "spaced p s (Suc 0) = [p]"
| "spaced p s (Suc (Suc m)) = p # s # spaced p s (Suc m)"

text \<open>How many times the trace records a call of \<open>call_rpc\<close> for a block header.\<close>

fun is_block_call :: "event \<Rightarrow> bool" where
  "is_block_call (Call (Eth_getBlockByNumber number)) = True"
| "is_block_call e = False"

definition block_calls :: "event list \<Rightarrow> nat" where
  "block_calls w = length (filter is_block_call w)"

text \<open>
  A synthetic chain with head block \<open>head\<close> whose block \<open>b\<close> carries the timestamp
  \<open>ts b\<close>: an endpoint that never fails, answers \<open>eth_blockNumber\<close> with \<open>hex head\<close>
  and \<open>eth_getBlockByNumber\<close> for a block of the chain with its timestamp in hexadecimal
  (\<open>null\<close> for a block beyond the head, no result for an unreadable number).
\<close>

definition chain :: "int \<Rightarrow> (int \<Rightarrow> int) \<Rightarrow> transport" where
  "chain head ts =
     \<lparr>blockNumber_reply = (\<lambda>w. Some (Val (hex head))),
      getBlock_reply = (\<lambda>number w.
         case py_int16 number of
           None \<Rightarrow> Some Absent
         | Some b \<Rightarrow> if 0 \<le> b \<and> b \<le> head then Some (Val (Val (hex (ts b)))) else Some Null),
      batch_reply = (\<lambda>payload w. None)\<rparr>"

text \<open>An endpoint that answers every batch with the same list of responses.\<close>

definition replies :: "response list \<Rightarrow> transport" where
  "replies rs =
     \<lparr>blockNumber_reply = (\<lambda>w. None),
      getBlock_reply = (\<lambda>number w. None),
      batch_reply = (\<lambda>payload w. Some rs)\<rparr>"


text \<open>How many times the trace records a call of \<open>call_rpc\<close> for the latest block number.\<close>

definition head_calls :: "event list \<Rightarrow> nat" where
  "head_calls w = length (filter (\<lambda>e. e = Call Eth_blockNumber) w)"

text \<open>
  \<open>search_reaches tr target_date s s'\<close>: started in the loop state \<open>s\<close> (the bounds, the
  candidate and the trace), the binary search comes to the head of its loop in the state
  \<open>s'\<close>. Each step is one iteration that fetched a block header and went on to the upper
  or to the lower half.
\<close>

inductive search_reaches ::
  "transport \<Rightarrow> int \<Rightarrow> int \<times> int \<times> (int \<times> int) option \<times> event list
     \<Rightarrow> int \<times> int \<times> (int \<times> int) option \<times> event list \<Rightarrow> bool"
  for tr :: transport and target_date :: int where
  here: "search_reaches tr target_date s s"
| upper:
    "search_reaches tr target_date s (low, high, chosen, w) \<Longrightarrow> low \<le> high \<Longrightarrow>
     call_rpc (getBlock_reply tr (hex ((low + high) div 2)))
       (Eth_getBlockByNumber (hex ((low + high) div 2))) 3 1 w
       = (Some (Val (Val timestamp)), w') \<Longrightarrow>
     py_int16 timestamp = Some block_timestamp \<Longrightarrow>
     utcfromtimestamp block_timestamp = Some block_datetime \<Longrightarrow>
     date block_datetime < target_date \<Longrightarrow>
     search_reaches tr target_date s
       ((low + high) div 2 + 1, high, Some ((low + high) div 2, block_datetime), w')"
| lower:
    "search_reaches tr target_date s (low, high, chosen, w) \<Longrightarrow> low \<le> high \<Longrightarrow>
     call_rpc (getBlock_reply tr (hex ((low + high) div 2)))
       (Eth_getBlockByNumber (hex ((low + high) div 2))) 3 1 w
       = (Some (Val (Val timestamp)), w') \<Longrightarrow>
     py_int16 timestamp = Some block_timestamp \<Longrightarrow>
     utcfromtimestamp block_timestamp = Some block_datetime \<Longrightarrow>
     target_date < date block_datetime \<Longrightarrow>
     search_reaches tr target_date s (low, (low + high) div 2 - 1, chosen, w')"

code_pred search_reaches .

text \<open>
  Timestamps for synthetic chains: block \<open>b\<close> at midnight of day \<open>b\<close>; block \<open>b\<close> at
  midnight \<open>b\<close> days after 2024-01-01 (day 19723); every block at the epoch.
\<close>

definition days :: "int \<Rightarrow> int" where
  "days b = b * 86400"

definition daily :: "int \<Rightarrow> int" where
  "daily b = (19723 + b) * 86400"

definition same_day :: "int \<Rightarrow> int" where
  "same_day b = 0"

text \<open>The chain \<open>chain head ts\<close> on an endpoint that cannot deliver the block \<open>lost\<close>.\<close>

definition lossy_chain :: "int \<Rightarrow> (int \<Rightarrow> int) \<Rightarrow> int \<Rightarrow> transport" where
  "lossy_chain head ts lost =
     (chain head ts)
       \<lparr>getBlock_reply := (\<lambda>number w.
          if py_int16 number = Some lost then None
          else getBlock_reply (chain head ts) number w)\<rparr>"

text \<open>
  The token that \<open>id_to_token.get(resp.get("id"))\<close> finds for a response; whether a
  response is decoded into the entry of the name \<open>k\<close>; whether the \<open>id\<close> of a response
  is the \<open>id\<close> of one of the requests of the batch.
\<close>

definition correlate :: "(int \<times> token) list \<Rightarrow> response \<Rightarrow> token option" where
  "correlate id_to_tok resp = (case resp_id resp of None \<Rightarrow> None | Some i \<Rightarrow> map_of id_to_tok i)"

definition answers :: "(int \<times> token) list \<Rightarrow> string \<Rightarrow> response \<Rightarrow> bool" where
  "answers id_to_tok k resp \<longleftrightarrow> map_option name (correlate id_to_tok resp) = Some k"

definition matched :: "token list \<Rightarrow> response \<Rightarrow> bool" where
  "matched tokens resp \<longleftrightarrow>
     (case resp_id resp of None \<Rightarrow> False | Some i \<Rightarrow> 0 \<le> i \<and> i < int (length tokens))"

text \<open>
  The test of the retry wrapper on a decoded mapping, \<open>supplies and all(...)\<close>; and the
  trace with which its attempt number \<open>k\<close> (from 0) starts when every attempt before
  it failed that test: each failed attempt leaves the trace of its batch call and then
  sleeps.
\<close>

definition all_available :: "(string \<times> int option) list \<Rightarrow> bool" where
  "all_available supplies \<longleftrightarrow>
     supplies \<noteq> [] \<and> list_all (\<lambda>supply. supply \<noteq> None) (map snd supplies)"

fun attempt_world ::
  "token list \<Rightarrow> transport \<Rightarrow> int \<Rightarrow> nat \<Rightarrow> event list \<Rightarrow> nat \<Rightarrow> event list" where
  "attempt_world tokens tr block_number delay w 0 = w"
| "attempt_world tokens tr block_number delay w (Suc k) =
     snd (get_token_total_supplies tokens tr block_number
            (attempt_world tokens tr block_number delay w k)) @ [Sleep delay]"

text \<open>How many posts the trace records.\<close>

fun is_post :: "event \<Rightarrow> bool" where
  "is_post (Post payload) = True"
| "is_post e = False"

definition post_count :: "event list \<Rightarrow> nat" where
  "post_count w = length (filter is_post w)"

text \<open>
  An endpoint that answers its first three posts with an undecodable result for the
  request 0 and every later post with the result \<open>"0x1"\<close>.
\<close>

definition flaky :: transport where
  "flaky =
     \<lparr>blockNumber_reply = (\<lambda>w. None),
      getBlock_reply = (\<lambda>number w. None),
      batch_reply = (\<lambda>payload w.
         if post_count w < 3 then Some [\<lparr>resp_id = Some 0, resp_result = Some ''zz''\<rparr>]
         else Some [\<lparr>resp_id = Some 0, resp_result = Some ''0x1''\<rparr>])\<rparr>"

section \<open>\<open>int(hex(n), 16)\<close> gives \<open>n\<close> back\<close>

lemma upt_16: "[0..<16] = [0,1,2,3,4,5,6,7,8,9,10,11,12,13,14,15::nat]"
  by (simp add: upt_rec)

lemma hex_digit_cases:
  assumes "d < 16"
  shows "d \<in> set [0,1,2,3,4,5,6,7,8,9,10,11,12,13,14,15::nat]"
proof -
  from assms have "d \<in> set [0..<16]" by simp
  then show ?thesis unfolding upt_16 .
qed

lemma digit_value_hex_digit: "d < 16 \<Longrightarrow> digit_value (hex_digit d) = d"
  using hex_digit_cases [of d] by (auto simp: digit_value_def hex_digit_def)

lemma hex_digit_not_underscore: "d < 16 \<Longrightarrow> hex_digit d \<noteq> CHR ''_''"
  using hex_digit_cases [of d] by (auto simp: hex_digit_def)

lemma hex_digit_not_space: "d < 16 \<Longrightarrow> \<not> py_isspace (hex_digit d)"
  using hex_digit_cases [of d] by (auto simp: hex_digit_def py_isspace_def)


lemma scan_digits_append:
  "\<forall>c\<in>set xs. is_hex c \<Longrightarrow> xs \<noteq> [] \<Longrightarrow>
   scan_digits acc prev (xs @ ys) =
   scan_digits (foldl (\<lambda>a c. a * 16 + digit_value c) acc xs) (last xs) ys"
proof (induction xs arbitrary: acc prev)
  case Nil
  then show ?case by simp
next
  case (Cons x xs)
  show ?case
  proof (cases xs)
    case Nil
    with Cons.prems show ?thesis by (simp add: is_hex_def)
  next
    case (Cons y zs)
    have "scan_digits acc prev ((x # xs) @ ys) = scan_digits (acc * 16 + digit_value x) x (xs @ ys)"
      using Cons.prems by (simp add: is_hex_def)
    also have "\<dots> = scan_digits (foldl (\<lambda>a c. a * 16 + digit_value c) (acc * 16 + digit_value x) xs) (last xs) ys"
      using Cons.prems Cons by (intro Cons.IH) simp_all
    finally show ?thesis using Cons by simp
  qed
qed

lemma hex_nat_is_hex: "\<forall>c\<in>set (hex_nat n). is_hex c"
proof (induction n rule: hex_nat.induct)
  case (1 n)
  show ?case
  proof (cases "n < 16")
    case True
    then show ?thesis
      by (simp add: hex_nat.simps [of n] is_hex_def digit_value_hex_digit hex_digit_not_underscore)
  next
    case False
    have "n mod 16 < 16" by simp
    with False 1 show ?thesis
      by (simp add: hex_nat.simps [of n] is_hex_def digit_value_hex_digit hex_digit_not_underscore)
  qed
qed

lemma hex_nat_nonempty: "hex_nat n \<noteq> []"
  by (subst hex_nat.simps) simp

lemma foldl_hex_nat:
  "foldl (\<lambda>a c. a * 16 + digit_value c) acc (hex_nat n) = acc * 16 ^ length (hex_nat n) + n"
proof (induction n arbitrary: acc rule: hex_nat.induct)
  case (1 n)
  show ?case
  proof (cases "n < 16")
    case True
    then show ?thesis by (simp add: hex_nat.simps [of n] digit_value_hex_digit)
  next
    case False
    have m: "n mod 16 < 16" by simp
    have "foldl (\<lambda>a c. a * 16 + digit_value c) acc (hex_nat n)
          = (acc * 16 ^ length (hex_nat (n div 16)) + n div 16) * 16 + n mod 16"
      using False 1 [OF False] by (simp add: hex_nat.simps [of n] digit_value_hex_digit [OF m])
    also have "\<dots> = acc * 16 ^ length (hex_nat n) + n"
      using False by (simp add: hex_nat.simps [of n] algebra_simps)
    finally show ?thesis .
  qed
qed

lemma scan_digits_hex_nat: "scan_digits 0 prev (hex_nat n) = Some (n, [])"
proof -
  have "scan_digits 0 prev (hex_nat n @ []) =
        scan_digits (foldl (\<lambda>a c. a * 16 + digit_value c) 0 (hex_nat n)) (last (hex_nat n)) []"
    by (rule scan_digits_append) (simp_all add: hex_nat_is_hex hex_nat_nonempty)
  moreover have "last (hex_nat n) \<noteq> CHR ''_''"
    using hex_nat_is_hex [of n] hex_nat_nonempty [of n] last_in_set is_hex_def by blast
  ultimately show ?thesis by (simp add: foldl_hex_nat)
qed


lemma py_int16_prefixed:
  assumes "is_hex c" and "scan_digits 0 (CHR 0x00) (c # cs) = Some (v, [])"
  shows "py_int16 (CHR ''0'' # CHR ''x'' # c # cs) = Some (int v)"
    and "py_int16 (CHR ''-'' # CHR ''0'' # CHR ''x'' # c # cs) = Some (- int v)"
proof -
  have c: "c \<noteq> CHR ''_''" using assms(1) by (simp add: is_hex_def)
  have sp: "dropWhile py_isspace (CHR ''0'' # CHR ''x'' # c # cs) = CHR ''0'' # CHR ''x'' # c # cs"
    "dropWhile py_isspace (CHR ''-'' # CHR ''0'' # CHR ''x'' # c # cs)
       = CHR ''-'' # CHR ''0'' # CHR ''x'' # c # cs"
    by (simp_all add: py_isspace_def)
  have sg: "skip_sign (CHR ''0'' # CHR ''x'' # c # cs) = (1, CHR ''0'' # CHR ''x'' # c # cs)"
    "skip_sign (CHR ''-'' # CHR ''0'' # CHR ''x'' # c # cs) = (- 1, CHR ''0'' # CHR ''x'' # c # cs)"
    by (simp_all add: skip_sign_def)
  have pf: "skip_prefix (CHR ''0'' # CHR ''x'' # c # cs) = c # cs"
    using c by (simp add: skip_prefix_def)
  have body: "(case c # cs of
           [] \<Rightarrow> None
         | c' # _ \<Rightarrow>
             if c' = CHR ''_'' then None
             else (case scan_digits 0 (CHR 0x00) (c # cs) of
                     None \<Rightarrow> None
                   | Some (v, rest) \<Rightarrow>
                       if rest = c # cs then None
                       else if dropWhile py_isspace rest = [] then Some (sg * int v)
                       else None)) = Some (sg * int v)" for sg
    unfolding assms(2) using c by simp
  show "py_int16 (CHR ''0'' # CHR ''x'' # c # cs) = Some (int v)"
    unfolding py_int16_def sp sg prod.case Let_def pf body by simp
  show "py_int16 (CHR ''-'' # CHR ''0'' # CHR ''x'' # c # cs) = Some (- int v)"
    unfolding py_int16_def sp sg prod.case Let_def pf body by simp
qed

lemma py_int16_hex: "py_int16 (hex n) = Some n"
proof -
  obtain c cs where s: "hex_nat (nat \<bar>n\<bar>) = c # cs"
    using hex_nat_nonempty [of "nat \<bar>n\<bar>"] by (cases "hex_nat (nat \<bar>n\<bar>)") auto
  have "c \<in> set (hex_nat (nat \<bar>n\<bar>))" by (simp add: s)
  then have h: "is_hex c" using hex_nat_is_hex by blast
  have "scan_digits 0 (CHR 0x00) (c # cs) = Some (nat \<bar>n\<bar>, [])"
    using scan_digits_hex_nat [of "CHR 0x00" "nat \<bar>n\<bar>"] by (simp only: s)
  note r = py_int16_prefixed [OF h this]
  show ?thesis
  proof (cases "n < 0")
    case True
    then have "hex n = CHR ''-'' # CHR ''0'' # CHR ''x'' # c # cs"
      by (simp add: hex_def flip: s)
    with True r(2) show ?thesis by simp
  next
    case False
    then have "hex n = CHR ''0'' # CHR ''x'' # c # cs"
      by (simp add: hex_def flip: s)
    with False r(1) show ?thesis by simp
  qed
qed

section \<open>The retry loops of \<open>call_rpc\<close> and \<open>call_rpc_batch\<close>\<close>

lemma spaced_Suc: "0 < m \<Longrightarrow> spaced p s (Suc m) = p # s # spaced p s m"
  by (cases m) simp_all

lemma call_rpc_loop_all_fail:
  "(\<And>h. post h = None) \<Longrightarrow> fst (call_rpc_loop post payload retries delay attempt w) = None"
proof (induction post payload retries delay attempt w rule: call_rpc_loop.induct)
  case (1 post payload retries delay attempt w)
  show ?case
  proof (cases "attempt < retries")
    case False
    then show ?thesis by (subst call_rpc_loop.simps) simp
  next
    case True
    have "post w = None" by (rule 1(2))
    with True 1(1) [OF True this 1(2)] show ?thesis
      by (subst call_rpc_loop.simps) simp
  qed
qed

lemma call_rpc_loop_success:
  "attempt < retries \<Longrightarrow> post w = Some r \<Longrightarrow>
   call_rpc_loop post payload retries delay attempt w = (Some r, w @ [Post payload])"
  by (subst call_rpc_loop.simps) simp

lemma call_rpc_success:
  "0 < retries \<Longrightarrow> post (w @ [Call payload]) = Some r \<Longrightarrow>
   call_rpc post payload retries delay w = (Some r, w @ [Call payload, Post payload])"
  by (simp add: call_rpc_def call_rpc_loop_success)


lemma call_rpc_loop_trace:
  "\<exists>m. int m \<le> max 0 (retries - attempt) \<and> (attempt < retries \<longrightarrow> 0 < m) \<and>
       snd (call_rpc_loop post payload retries delay attempt w)
         = w @ spaced (Post payload) (Sleep delay) m \<and>
       (fst (call_rpc_loop post payload retries delay attempt w) = None
          \<longrightarrow> int m = max 0 (retries - attempt))"
proof (induction post payload retries delay attempt w rule: call_rpc_loop.induct)
  case (1 post payload retries delay attempt w)
  show ?case
  proof (cases "attempt < retries")
    case False
    then have eq: "call_rpc_loop post payload retries delay attempt w = (None, w)"
      by (subst call_rpc_loop.simps) simp
    from False show ?thesis
      unfolding eq by (intro exI [of _ 0]) simp
  next
    case True
    show ?thesis
    proof (cases "post w")
      case (Some r)
      have eq: "call_rpc_loop post payload retries delay attempt w = (Some r, w @ [Post payload])"
        using True Some by (rule call_rpc_loop_success)
      from True show ?thesis
        unfolding eq by (intro exI [of _ "Suc 0"]) simp
    next
      case None
      let ?w = "if attempt < retries - 1 then w @ [Post payload, Sleep delay]
                else w @ [Post payload]"
      from 1 [OF True None] obtain m where m0:
        "int m \<le> max 0 (retries - (attempt + 1)) \<and>
         (attempt + 1 < retries \<longrightarrow> 0 < m) \<and>
         snd (call_rpc_loop post payload retries delay (attempt + 1) ?w)
           = ?w @ spaced (Post payload) (Sleep delay) m \<and>
         (fst (call_rpc_loop post payload retries delay (attempt + 1) ?w) = None
           \<longrightarrow> int m = max 0 (retries - (attempt + 1)))" ..
      note m = conjunct1 [OF m0] conjunct1 [OF conjunct2 [OF m0]]
        conjunct1 [OF conjunct2 [OF conjunct2 [OF m0]]]
        conjunct2 [OF conjunct2 [OF conjunct2 [OF m0]]]
      have step: "call_rpc_loop post payload retries delay attempt w
                  = call_rpc_loop post payload retries delay (attempt + 1) ?w"
        using True None by (subst call_rpc_loop.simps) simp
      show ?thesis
      proof (cases "attempt < retries - 1")
        case True
        with m(2) have pos: "0 < m" by simp
        have a: "int (Suc m) \<le> max 0 (retries - attempt)" using m(1) True by simp
        have b: "snd (call_rpc_loop post payload retries delay (attempt + 1) ?w)
                 = w @ spaced (Post payload) (Sleep delay) (Suc m)"
          using m(3) True pos by (simp add: spaced_Suc)
        have c: "fst (call_rpc_loop post payload retries delay (attempt + 1) ?w) = None
                 \<longrightarrow> int (Suc m) = max 0 (retries - attempt)"
          using m(4) True by simp
        have d: "attempt < retries \<longrightarrow> 0 < Suc m" by simp
        show ?thesis unfolding step by (rule exI [of _ "Suc m"]) (intro conjI a d b c)
      next
        case False
        with m(1) \<open>attempt < retries\<close> have z: "m = 0" by simp
        have a: "int (Suc 0) \<le> max 0 (retries - attempt)" using \<open>attempt < retries\<close> by simp
        have b: "snd (call_rpc_loop post payload retries delay (attempt + 1) ?w)
                 = w @ spaced (Post payload) (Sleep delay) (Suc 0)"
          using m(3) False z by simp
        have c: "fst (call_rpc_loop post payload retries delay (attempt + 1) ?w) = None
                 \<longrightarrow> int (Suc 0) = max 0 (retries - attempt)"
          using False \<open>attempt < retries\<close> by simp
        have d: "attempt < retries \<longrightarrow> 0 < Suc 0" by simp
        show ?thesis unfolding step by (rule exI [of _ "Suc 0"]) (intro conjI a d b c)
      qed
    qed
  qed
qed


lemma call_rpc_batch_loop_success:
  "attempt < retries \<Longrightarrow> post w = Some r \<Longrightarrow>
   call_rpc_batch_loop post payload retries delay attempt w = (Some r, w @ [Post payload])"
  by (subst call_rpc_batch_loop.simps) simp

lemma call_rpc_batch_success:
  "0 < retries \<Longrightarrow> post (w @ [Call payload]) = Some r \<Longrightarrow>
   call_rpc_batch post payload retries delay w = (Some r, w @ [Call payload, Post payload])"
  by (simp add: call_rpc_batch_def call_rpc_batch_loop_success)



lemma call_rpc_trace:
  "\<exists>m. m \<le> nat retries \<and>
       snd (call_rpc post payload retries delay w)
         = w @ Call payload # spaced (Post payload) (Sleep delay) m \<and>
       (fst (call_rpc post payload retries delay w) = None \<longrightarrow> m = nat retries)"
proof -
  from call_rpc_loop_trace [of retries 0 post payload delay "w @ [Call payload]"]
  obtain m where m0:
    "int m \<le> max 0 (retries - 0) \<and> (0 < retries \<longrightarrow> 0 < m) \<and>
     snd (call_rpc_loop post payload retries delay 0 (w @ [Call payload]))
       = (w @ [Call payload]) @ spaced (Post payload) (Sleep delay) m \<and>
     (fst (call_rpc_loop post payload retries delay 0 (w @ [Call payload])) = None
        \<longrightarrow> int m = max 0 (retries - 0))" ..
  have a: "m \<le> nat retries" using conjunct1 [OF m0] by simp
  have b: "snd (call_rpc post payload retries delay w)
             = w @ Call payload # spaced (Post payload) (Sleep delay) m"
    using conjunct1 [OF conjunct2 [OF conjunct2 [OF m0]]] by (simp add: call_rpc_def)
  have c: "fst (call_rpc post payload retries delay w) = None \<longrightarrow> m = nat retries"
  proof
    assume "fst (call_rpc post payload retries delay w) = None"
    then have "int m = max 0 (retries - 0)"
      using conjunct2 [OF conjunct2 [OF conjunct2 [OF m0]]] by (simp add: call_rpc_def)
    then show "m = nat retries" by linarith
  qed
  show ?thesis by (rule exI [of _ m]) (intro conjI a b c)
qed


lemma call_rpc_all_fail:
  "(\<And>h. post h = None) \<Longrightarrow> fst (call_rpc post payload retries delay w) = None"
  unfolding call_rpc_def by (rule call_rpc_loop_all_fail)



lemma spaced_3: "spaced p s 3 = [p, s, p, s, p]"
  by (simp add: numeral_3_eq_3)


section \<open>The binary search\<close>

lemma filter_block_call_spaced:
  "filter is_block_call (spaced (Post payload) (Sleep delay) m) = []"
  by (induction "Post payload" "Sleep delay" m rule: spaced.induct) simp_all

lemma block_calls_call_rpc:
  "block_calls (snd (call_rpc post payload retries delay w))
     = block_calls w + (if is_block_call (Call payload) then 1 else 0)"
proof -
  from call_rpc_trace [of retries post payload delay w] obtain m where
    "m \<le> nat retries \<and>
     snd (call_rpc post payload retries delay w)
       = w @ Call payload # spaced (Post payload) (Sleep delay) m \<and>
     (fst (call_rpc post payload retries delay w) = None \<longrightarrow> m = nat retries)" ..
  then have "snd (call_rpc post payload retries delay w)
       = w @ Call payload # spaced (Post payload) (Sleep delay) m" by simp
  then show ?thesis by (simp add: block_calls_def filter_block_call_spaced)
qed

lemma loop_exit:
  "\<not> low \<le> high \<Longrightarrow>
   get_closest_block_timestamp_loop tr target_date low high chosen w = (Inr chosen, w)"
  by (subst get_closest_block_timestamp_loop.simps) simp

lemma loop_unavailable:
  "low \<le> high \<Longrightarrow>
   call_rpc (getBlock_reply tr (hex ((low + high) div 2)))
     (Eth_getBlockByNumber (hex ((low + high) div 2))) 3 1 w = (None, w') \<Longrightarrow>
   get_closest_block_timestamp_loop tr target_date low high chosen w = (Inr None, w')"
  by (subst get_closest_block_timestamp_loop.simps) (simp add: Let_def)

lemma loop_fetched:
  assumes "low \<le> high"
    and "call_rpc (getBlock_reply tr (hex ((low + high) div 2)))
           (Eth_getBlockByNumber (hex ((low + high) div 2))) 3 1 w
         = (Some (Val (Val timestamp)), w')"
    and "py_int16 timestamp = Some block_timestamp"
    and "utcfromtimestamp block_timestamp = Some block_datetime"
  shows "get_closest_block_timestamp_loop tr target_date low high chosen w =
     (if date block_datetime = target_date
      then (Inr (Some ((low + high) div 2, block_datetime)), w')
      else if date block_datetime < target_date
      then get_closest_block_timestamp_loop tr target_date ((low + high) div 2 + 1) high
             (Some ((low + high) div 2, block_datetime)) w'
      else get_closest_block_timestamp_loop tr target_date low ((low + high) div 2 - 1)
             chosen w')"
  using assms by (subst get_closest_block_timestamp_loop.simps) (simp add: Let_def)


lemma loop_unfold:
  assumes "low \<le> high"
    and "call_rpc (getBlock_reply tr (hex ((low + high) div 2)))
           (Eth_getBlockByNumber (hex ((low + high) div 2))) 3 1 w = (block_data, w')"
  shows "get_closest_block_timestamp_loop tr target_date low high chosen w =
     (case block_data of
        None \<Rightarrow> (Inr None, w')
      | Some Absent \<Rightarrow> (Inr None, w')
      | Some Null \<Rightarrow> (Inl TypeError, w')
      | Some (Val Absent) \<Rightarrow> (Inl KeyError, w')
      | Some (Val Null) \<Rightarrow> (Inl TypeError, w')
      | Some (Val (Val timestamp)) \<Rightarrow>
          (case py_int16 timestamp of
             None \<Rightarrow> (Inl ValueError, w')
           | Some block_timestamp \<Rightarrow>
               (case utcfromtimestamp block_timestamp of
                  None \<Rightarrow> (Inl DateRangeError, w')
                | Some block_datetime \<Rightarrow>
                    if date block_datetime = target_date
                    then (Inr (Some ((low + high) div 2, block_datetime)), w')
                    else if date block_datetime < target_date
                    then get_closest_block_timestamp_loop tr target_date
                           ((low + high) div 2 + 1) high
                           (Some ((low + high) div 2, block_datetime)) w'
                    else get_closest_block_timestamp_loop tr target_date low
                           ((low + high) div 2 - 1) chosen w')))"
  using assms by (subst get_closest_block_timestamp_loop.simps) (simp add: Let_def)

lemma loop_step_cases:
  assumes "low \<le> high"
    and "call_rpc (getBlock_reply tr (hex ((low + high) div 2)))
           (Eth_getBlockByNumber (hex ((low + high) div 2))) 3 1 w = (block_data, w')"
  shows "(\<exists>r. get_closest_block_timestamp_loop tr target_date low high chosen w = (r, w')) \<or>
     (\<exists>dt. get_closest_block_timestamp_loop tr target_date low high chosen w
         = get_closest_block_timestamp_loop tr target_date ((low + high) div 2 + 1) high
             (Some ((low + high) div 2, dt)) w') \<or>
     get_closest_block_timestamp_loop tr target_date low high chosen w
       = get_closest_block_timestamp_loop tr target_date low ((low + high) div 2 - 1) chosen w'"
  unfolding loop_unfold [OF assms]
  by (simp split: option.split field.split) blast

lemma halves:
  fixes low high :: int
  assumes "low \<le> high"
  shows "nat (high - ((low + high) div 2 + 1) + 1) \<le> nat (high - low + 1) div 2"
    and "nat ((low + high) div 2 - 1 - low + 1) \<le> nat (high - low + 1) div 2"
    and "0 < nat (high - low + 1)"
  using assms by auto

lemma floorlog_half: "0 < n \<Longrightarrow> m \<le> n div 2 \<Longrightarrow> Suc (floorlog 2 m) \<le> floorlog 2 n"
proof -
  assume n: "0 < n" and m: "m \<le> n div 2"
  have "floorlog 2 n = floorlog 2 (n div 2) + 1"
    using n by (subst compute_floorlog) simp
  moreover have "floorlog 2 m \<le> floorlog 2 (n div 2)"
    using m by (rule floorlog_mono)
  ultimately show ?thesis by simp
qed

lemma loop_block_calls:
  "block_calls (snd (get_closest_block_timestamp_loop tr target_date low high chosen w))
     \<le> block_calls w + floorlog 2 (nat (high - low + 1))"
proof (induction "nat (high - low + 1)" arbitrary: low high chosen w rule: less_induct)
  case less
  show ?case
  proof (cases "low \<le> high")
    case False
    then show ?thesis by (simp add: loop_exit)
  next
    case True
    let ?mid = "(low + high) div 2"
    let ?n = "nat (high - low + 1)"
    obtain block_data w' where call:
      "call_rpc (getBlock_reply tr (hex ?mid)) (Eth_getBlockByNumber (hex ?mid)) 3 1 w
         = (block_data, w')"
      by (cases "call_rpc (getBlock_reply tr (hex ?mid)) (Eth_getBlockByNumber (hex ?mid)) 3 1 w")
    have "block_calls (snd (call_rpc (getBlock_reply tr (hex ?mid))
            (Eth_getBlockByNumber (hex ?mid)) 3 1 w)) = block_calls w + 1"
      by (simp add: block_calls_call_rpc)
    from this [unfolded call] have w': "block_calls w' = block_calls w + 1" by simp
    note h = halves [OF True]
    have one: "1 \<le> floorlog 2 ?n"
      using floorlog_half [OF h(3), of 0] by simp
    from loop_step_cases [OF True call, of target_date chosen]
    consider (stop) r where
        "get_closest_block_timestamp_loop tr target_date low high chosen w = (r, w')"
      | (up) dt where
        "get_closest_block_timestamp_loop tr target_date low high chosen w
           = get_closest_block_timestamp_loop tr target_date (?mid + 1) high (Some (?mid, dt)) w'"
      | (down)
        "get_closest_block_timestamp_loop tr target_date low high chosen w
           = get_closest_block_timestamp_loop tr target_date low (?mid - 1) chosen w'"
      by (elim disjE exE)
    then show ?thesis
    proof cases
      case stop
      then show ?thesis using w' one by simp
    next
      case up
      have "nat (high - (?mid + 1) + 1) < ?n" using h(1) h(3) by linarith
      then have "block_calls (snd (get_closest_block_timestamp_loop tr target_date (?mid + 1) high
               (Some (?mid, dt)) w'))
            \<le> block_calls w' + floorlog 2 (nat (high - (?mid + 1) + 1))" by (rule less)
      also have "\<dots> \<le> block_calls w + floorlog 2 ?n"
        using floorlog_half [OF h(3) h(1)] w' by simp
      finally show ?thesis by (simp only: up)
    next
      case down
      have "nat (?mid - 1 - low + 1) < ?n" using h(2) h(3) by linarith
      then have "block_calls (snd (get_closest_block_timestamp_loop tr target_date low (?mid - 1)
               chosen w'))
            \<le> block_calls w' + floorlog 2 (nat (?mid - 1 - low + 1))" by (rule less)
      also have "\<dots> \<le> block_calls w + floorlog 2 ?n"
        using floorlog_half [OF h(3) h(2)] w' by simp
      finally show ?thesis by (simp only: down)
    qed
  qed
qed

lemma floorlog_le_ceiling:
  "0 \<le> head \<Longrightarrow> int (floorlog 2 (nat (head + 1))) \<le> \<lceil>log 2 (real_of_int (head + 1))\<rceil> + 1"
proof -
  assume "0 \<le> head"
  then have "int (floorlog 2 (nat (head + 1))) = \<lfloor>log 2 (real_of_int (head + 1))\<rfloor> + 1"
    by (simp add: floorlog_def)
  moreover have "\<lfloor>log 2 (real_of_int (head + 1))\<rfloor> \<le> \<lceil>log 2 (real_of_int (head + 1))\<rceil>"
    by (rule floor_le_ceiling)
  ultimately show ?thesis by simp
qed

lemma filter_head_call_spaced:
  "filter (\<lambda>e. e = Call Eth_blockNumber) (spaced (Post payload) (Sleep delay) m) = []"
  by (induction "Post payload" "Sleep delay" m rule: spaced.induct) simp_all

lemma head_calls_call_rpc:
  "head_calls (snd (call_rpc post payload retries delay w))
     = head_calls w + (if payload = Eth_blockNumber then 1 else 0)"
proof -
  from call_rpc_trace [of retries post payload delay w] obtain m where
    "m \<le> nat retries \<and>
     snd (call_rpc post payload retries delay w)
       = w @ Call payload # spaced (Post payload) (Sleep delay) m \<and>
     (fst (call_rpc post payload retries delay w) = None \<longrightarrow> m = nat retries)" ..
  then have "snd (call_rpc post payload retries delay w)
       = w @ Call payload # spaced (Post payload) (Sleep delay) m" by simp
  then show ?thesis by (auto simp add: head_calls_def filter_head_call_spaced)
qed

lemma loop_head_calls:
  "head_calls (snd (get_closest_block_timestamp_loop tr target_date low high chosen w))
     = head_calls w"
proof (induction "nat (high - low + 1)" arbitrary: low high chosen w rule: less_induct)
  case less
  show ?case
  proof (cases "low \<le> high")
    case False
    then show ?thesis by (simp add: loop_exit)
  next
    case True
    let ?mid = "(low + high) div 2"
    let ?n = "nat (high - low + 1)"
    obtain block_data w' where call:
      "call_rpc (getBlock_reply tr (hex ?mid)) (Eth_getBlockByNumber (hex ?mid)) 3 1 w
         = (block_data, w')"
      by (cases "call_rpc (getBlock_reply tr (hex ?mid)) (Eth_getBlockByNumber (hex ?mid)) 3 1 w")
    have "head_calls (snd (call_rpc (getBlock_reply tr (hex ?mid))
            (Eth_getBlockByNumber (hex ?mid)) 3 1 w)) = head_calls w"
      by (simp add: head_calls_call_rpc)
    from this [unfolded call] have w': "head_calls w' = head_calls w" by simp
    note h = halves [OF True]
    from loop_step_cases [OF True call, of target_date chosen]
    consider (stop) r where
        "get_closest_block_timestamp_loop tr target_date low high chosen w = (r, w')"
      | (up) dt where
        "get_closest_block_timestamp_loop tr target_date low high chosen w
           = get_closest_block_timestamp_loop tr target_date (?mid + 1) high (Some (?mid, dt)) w'"
      | (down)
        "get_closest_block_timestamp_loop tr target_date low high chosen w
           = get_closest_block_timestamp_loop tr target_date low (?mid - 1) chosen w'"
      by (elim disjE exE)
    then show ?thesis
    proof cases
      case stop
      then show ?thesis using w' by simp
    next
      case up
      have "nat (high - (?mid + 1) + 1) < ?n" using h(1) h(3) by linarith
      then have "head_calls (snd (get_closest_block_timestamp_loop tr target_date (?mid + 1) high
               (Some (?mid, dt)) w')) = head_calls w'" by (rule less)
      then show ?thesis by (simp only: up w')
    next
      case down
      have "nat (?mid - 1 - low + 1) < ?n" using h(2) h(3) by linarith
      then have "head_calls (snd (get_closest_block_timestamp_loop tr target_date low (?mid - 1)
               chosen w')) = head_calls w'" by (rule less)
      then show ?thesis by (simp only: down w')
    qed
  qed
qed

lemma resolve_with_head:
  assumes "call_rpc (blockNumber_reply tr) Eth_blockNumber 3 1 w = (Some (Val result), w1)"
    and "py_int16 result = Some head"
  shows "get_closest_block_timestamp tr target_date w
           = get_closest_block_timestamp_loop tr target_date 0 head None w1"
  using assms by (simp add: get_closest_block_timestamp_def)

text \<open>
  C8. The search is a total function, so it returns for every head and every endpoint.
  When the chain head is \<open>head \<ge> 0\<close> it calls \<open>call_rpc\<close> for a block header at most
  \<open>\<lceil>log\<^sub>2 (head + 1)\<rceil> + 1\<close> times, and for the latest block number exactly once.
\<close>

theorem resolve_call_bound:
  assumes "call_rpc (blockNumber_reply tr) Eth_blockNumber 3 1 w = (Some (Val result), w1)"
    and "py_int16 result = Some head"
    and "0 \<le> head"
  shows "int (block_calls (snd (get_closest_block_timestamp tr target_date w)))
           \<le> int (block_calls w) + \<lceil>log 2 (real_of_int (head + 1))\<rceil> + 1 \<and>
         head_calls (snd (get_closest_block_timestamp tr target_date w)) = head_calls w + 1"
proof -
  have "block_calls (snd (call_rpc (blockNumber_reply tr) Eth_blockNumber 3 1 w)) = block_calls w"
    by (simp add: block_calls_call_rpc)
  from this [unfolded assms(1)] have b: "block_calls w1 = block_calls w" by simp
  have "head_calls (snd (call_rpc (blockNumber_reply tr) Eth_blockNumber 3 1 w))
          = head_calls w + 1"
    by (simp add: head_calls_call_rpc)
  from this [unfolded assms(1)] have h: "head_calls w1 = head_calls w + 1" by simp
  note eq = resolve_with_head [OF assms(1,2), of target_date]
  have "block_calls (snd (get_closest_block_timestamp tr target_date w))
          \<le> block_calls w1 + floorlog 2 (nat (head - 0 + 1))"
    unfolding eq by (rule loop_block_calls)
  then have "int (block_calls (snd (get_closest_block_timestamp tr target_date w)))
          \<le> int (block_calls w) + int (floorlog 2 (nat (head + 1)))"
    using b by simp
  also have "\<dots> \<le> int (block_calls w) + (\<lceil>log 2 (real_of_int (head + 1))\<rceil> + 1)"
    using floorlog_le_ceiling [OF assms(3)] by simp
  finally have bound: "int (block_calls (snd (get_closest_block_timestamp tr target_date w)))
           \<le> int (block_calls w) + \<lceil>log 2 (real_of_int (head + 1))\<rceil> + 1" by simp
  have once: "head_calls (snd (get_closest_block_timestamp tr target_date w)) = head_calls w + 1"
    unfolding eq using h by (simp add: loop_head_calls)
  from bound once show ?thesis by (rule conjI)
qed

lemma chain_head_call:
  "call_rpc (blockNumber_reply (chain head ts)) Eth_blockNumber 3 1 w
     = (Some (Val (hex head)), w @ [Call Eth_blockNumber, Post Eth_blockNumber])"
  by (rule call_rpc_success) (simp_all add: chain_def)

theorem resolve_call_bound_witness:
  "call_rpc (blockNumber_reply (chain 100 daily)) Eth_blockNumber 3 1 []
     = (Some (Val (hex 100)), [Call Eth_blockNumber, Post Eth_blockNumber]) \<and>
   py_int16 (hex 100) = Some 100 \<and> (0::int) \<le> 100 \<and>
   int (block_calls (snd (get_closest_block_timestamp (chain 100 daily) 19727 [])))
     \<le> int (block_calls []) + \<lceil>log 2 (real_of_int (100 + 1))\<rceil> + 1 \<and>
   head_calls (snd (get_closest_block_timestamp (chain 100 daily) 19727 [])) = head_calls [] + 1"
proof -
  have a: "call_rpc (blockNumber_reply (chain 100 daily)) Eth_blockNumber 3 1 []
     = (Some (Val (hex 100)), [Call Eth_blockNumber, Post Eth_blockNumber])"
    using chain_head_call [of 100 daily "[]"] by simp
  have b: "py_int16 (hex 100) = Some 100" by (rule py_int16_hex)
  have c: "(0::int) \<le> 100" by simp
  from resolve_call_bound [OF a b c, of 19727] a b c show ?thesis by blast
qed


lemma reaches_same_result:
  "search_reaches tr target_date s s' \<Longrightarrow>
   (case s of (low, high, chosen, w) \<Rightarrow>
      get_closest_block_timestamp_loop tr target_date low high chosen w)
   = (case s' of (low, high, chosen, w) \<Rightarrow>
      get_closest_block_timestamp_loop tr target_date low high chosen w)"
proof (induction rule: search_reaches.induct)
  case here
  show ?case by simp
next
  case (upper s low high chosen w timestamp w' block_timestamp block_datetime)
  have "get_closest_block_timestamp_loop tr target_date low high chosen w
        = get_closest_block_timestamp_loop tr target_date ((low + high) div 2 + 1) high
            (Some ((low + high) div 2, block_datetime)) w'"
    using loop_fetched [OF upper(2,3,4,5), of target_date chosen] upper(6) by simp
  with upper.IH show ?case by simp
next
  case (lower s low high chosen w timestamp w' block_timestamp block_datetime)
  have "get_closest_block_timestamp_loop tr target_date low high chosen w
        = get_closest_block_timestamp_loop tr target_date low ((low + high) div 2 - 1) chosen w'"
    using loop_fetched [OF lower(2,3,4,5), of target_date chosen] lower(6) by simp
  with lower.IH show ?case by simp
qed

lemma resolve_no_head:
  "call_rpc (blockNumber_reply tr) Eth_blockNumber 3 1 w = (None, w') \<Longrightarrow>
   get_closest_block_timestamp tr target_date w = (Inr None, w')"
  by (simp add: get_closest_block_timestamp_def)

text \<open>
  C5. When the call for the latest block number is unavailable, the function returns
  \<open>(None, None)\<close> and the trace is the one that call left: nothing was called after it.
  When the call for a block header is unavailable at any iteration the search reaches, the
  function returns \<open>(None, None)\<close> and the trace is the one that call left: the search
  did not go on, and the candidate it had is dropped.
\<close>

theorem resolve_unavailable:
  "(call_rpc (blockNumber_reply tr) Eth_blockNumber 3 1 w = (None, w')
      \<longrightarrow> get_closest_block_timestamp tr target_date w = (Inr None, w')) \<and>
   (call_rpc (blockNumber_reply tr) Eth_blockNumber 3 1 w = (Some (Val result), w1) \<and>
    py_int16 result = Some head \<and>
    search_reaches tr target_date (0, head, None, w1) (low, high, chosen, w2) \<and>
    low \<le> high \<and>
    call_rpc (getBlock_reply tr (hex ((low + high) div 2)))
      (Eth_getBlockByNumber (hex ((low + high) div 2))) 3 1 w2 = (None, w3)
      \<longrightarrow> get_closest_block_timestamp tr target_date w = (Inr None, w3))"
proof (intro conjI impI)
  assume "call_rpc (blockNumber_reply tr) Eth_blockNumber 3 1 w = (None, w')"
  then show "get_closest_block_timestamp tr target_date w = (Inr None, w')"
    by (rule resolve_no_head)
next
  assume a: "call_rpc (blockNumber_reply tr) Eth_blockNumber 3 1 w = (Some (Val result), w1) \<and>
    py_int16 result = Some head \<and>
    search_reaches tr target_date (0, head, None, w1) (low, high, chosen, w2) \<and>
    low \<le> high \<and>
    call_rpc (getBlock_reply tr (hex ((low + high) div 2)))
      (Eth_getBlockByNumber (hex ((low + high) div 2))) 3 1 w2 = (None, w3)"
  then have "get_closest_block_timestamp tr target_date w
             = get_closest_block_timestamp_loop tr target_date 0 head None w1"
    by (simp add: resolve_with_head)
  also have "\<dots> = get_closest_block_timestamp_loop tr target_date low high chosen w2"
    using reaches_same_result [of tr target_date "(0, head, None, w1)" "(low, high, chosen, w2)"] a
    by simp
  also have "\<dots> = (Inr None, w3)"
    using a by (simp add: loop_unavailable)
  finally show "get_closest_block_timestamp tr target_date w = (Inr None, w3)" .
qed


lemma call_rpc_exhausted:
  assumes "\<And>h. post h = None"
  shows "call_rpc post payload retries delay w
           = (None, w @ Call payload # spaced (Post payload) (Sleep delay) (nat retries))"
proof -
  have f: "fst (call_rpc post payload retries delay w) = None"
    using assms by (rule call_rpc_all_fail)
  from call_rpc_trace [of retries post payload delay w] obtain m where
    m: "m \<le> nat retries \<and>
     snd (call_rpc post payload retries delay w)
       = w @ Call payload # spaced (Post payload) (Sleep delay) m \<and>
     (fst (call_rpc post payload retries delay w) = None \<longrightarrow> m = nat retries)" ..
  with f have "m = nat retries" by simp
  with m f show ?thesis by (simp add: prod_eq_iff)
qed

lemma lossy_chain_head_call:
  "call_rpc (blockNumber_reply (lossy_chain head ts lost)) Eth_blockNumber 3 1 w
     = (Some (Val (hex head)), w @ [Call Eth_blockNumber, Post Eth_blockNumber])"
  by (rule call_rpc_success) (simp_all add: lossy_chain_def chain_def)

lemma lossy_chain_block_call:
  assumes "0 \<le> b" "b \<le> head" "b \<noteq> lost"
  shows "call_rpc (getBlock_reply (lossy_chain head ts lost) (hex b))
           (Eth_getBlockByNumber (hex b)) 3 1 w
         = (Some (Val (Val (hex (ts b)))),
            w @ [Call (Eth_getBlockByNumber (hex b)), Post (Eth_getBlockByNumber (hex b))])"
  using assms by (intro call_rpc_success) (simp_all add: lossy_chain_def chain_def py_int16_hex)

lemma lossy_chain_lost_call:
  "call_rpc (getBlock_reply (lossy_chain head ts lost) (hex lost))
     (Eth_getBlockByNumber (hex lost)) 3 1 w
   = (None, w @ Call (Eth_getBlockByNumber (hex lost))
               # spaced (Post (Eth_getBlockByNumber (hex lost))) (Sleep 1) (nat 3))"
  by (rule call_rpc_exhausted) (simp add: lossy_chain_def py_int16_hex)

theorem resolve_unavailable_witness:
  "call_rpc (blockNumber_reply (replies [])) Eth_blockNumber 3 1 []
     = (None, [Call Eth_blockNumber, Post Eth_blockNumber, Sleep 1, Post Eth_blockNumber,
               Sleep 1, Post Eth_blockNumber]) \<and>
   get_closest_block_timestamp (replies []) 2 []
     = (Inr None, [Call Eth_blockNumber, Post Eth_blockNumber, Sleep 1, Post Eth_blockNumber,
                   Sleep 1, Post Eth_blockNumber]) \<and>
   call_rpc (blockNumber_reply (lossy_chain 2 days 2)) Eth_blockNumber 3 1 []
     = (Some (Val (hex 2)), [Call Eth_blockNumber, Post Eth_blockNumber]) \<and>
   py_int16 (hex 2) = Some 2 \<and>
   search_reaches (lossy_chain 2 days 2) 2
     (0, 2, None, [Call Eth_blockNumber, Post Eth_blockNumber])
     (2, 2, Some (1, 86400),
      [Call Eth_blockNumber, Post Eth_blockNumber,
       Call (Eth_getBlockByNumber (hex 1)), Post (Eth_getBlockByNumber (hex 1))]) \<and>
   (2::int) \<le> 2 \<and>
   call_rpc (getBlock_reply (lossy_chain 2 days 2) (hex ((2 + 2) div 2)))
     (Eth_getBlockByNumber (hex ((2 + 2) div 2))) 3 1
     [Call Eth_blockNumber, Post Eth_blockNumber,
      Call (Eth_getBlockByNumber (hex 1)), Post (Eth_getBlockByNumber (hex 1))]
     = (None,
        [Call Eth_blockNumber, Post Eth_blockNumber,
         Call (Eth_getBlockByNumber (hex 1)), Post (Eth_getBlockByNumber (hex 1)),
         Call (Eth_getBlockByNumber (hex 2)), Post (Eth_getBlockByNumber (hex 2)), Sleep 1,
         Post (Eth_getBlockByNumber (hex 2)), Sleep 1, Post (Eth_getBlockByNumber (hex 2))]) \<and>
   get_closest_block_timestamp (lossy_chain 2 days 2) 2 []
     = (Inr None,
        [Call Eth_blockNumber, Post Eth_blockNumber,
         Call (Eth_getBlockByNumber (hex 1)), Post (Eth_getBlockByNumber (hex 1)),
         Call (Eth_getBlockByNumber (hex 2)), Post (Eth_getBlockByNumber (hex 2)), Sleep 1,
         Post (Eth_getBlockByNumber (hex 2)), Sleep 1, Post (Eth_getBlockByNumber (hex 2))])"
proof -
  let ?tr = "lossy_chain 2 days 2"
  let ?w1 = "[Call Eth_blockNumber, Post Eth_blockNumber]"
  let ?w2 = "[Call Eth_blockNumber, Post Eth_blockNumber,
       Call (Eth_getBlockByNumber (hex 1)), Post (Eth_getBlockByNumber (hex 1))]"
  have a1: "call_rpc (blockNumber_reply (replies [])) Eth_blockNumber 3 1 []
     = (None, [Call Eth_blockNumber, Post Eth_blockNumber, Sleep 1, Post Eth_blockNumber,
               Sleep 1, Post Eth_blockNumber])"
    using call_rpc_exhausted [of "blockNumber_reply (replies [])" Eth_blockNumber 3 1 "[]"]
    by (simp add: replies_def spaced_3)
  have b1: "call_rpc (blockNumber_reply ?tr) Eth_blockNumber 3 1 [] = (Some (Val (hex 2)), ?w1)"
    using lossy_chain_head_call [of 2 days 2 "[]"] by simp
  have b2: "py_int16 (hex 2) = Some 2" by (rule py_int16_hex)
  have f: "call_rpc (getBlock_reply ?tr (hex ((0 + 2) div 2)))
             (Eth_getBlockByNumber (hex ((0 + 2) div 2))) 3 1 ?w1
           = (Some (Val (Val (hex (days 1)))), ?w2)"
    using lossy_chain_block_call [of 1 2 2 days ?w1] by simp
  have "search_reaches ?tr 2 (0, 2, None, ?w1)
          ((0 + 2) div 2 + 1, 2, Some ((0 + 2) div 2, 86400), ?w2)"
    by (rule search_reaches.upper [OF search_reaches.here _ f py_int16_hex])
       (simp_all add: days_def utcfromtimestamp_def date_def)
  then have b3: "search_reaches ?tr 2 (0, 2, None, ?w1) (2, 2, Some (1, 86400), ?w2)"
    by simp
  have b4: "(2::int) \<le> 2" by simp
  have b5: "call_rpc (getBlock_reply ?tr (hex ((2 + 2) div 2)))
     (Eth_getBlockByNumber (hex ((2 + 2) div 2))) 3 1 ?w2
     = (None, ?w2 @ [Call (Eth_getBlockByNumber (hex 2)), Post (Eth_getBlockByNumber (hex 2)),
           Sleep 1, Post (Eth_getBlockByNumber (hex 2)), Sleep 1,
           Post (Eth_getBlockByNumber (hex 2))])"
    using lossy_chain_lost_call [of 2 days 2 ?w2] by (simp add: spaced_3)
  note t = resolve_unavailable
  from t [of "replies []" "[]" _ 2] a1
  have c1: "get_closest_block_timestamp (replies []) 2 []
     = (Inr None, [Call Eth_blockNumber, Post Eth_blockNumber, Sleep 1, Post Eth_blockNumber,
                   Sleep 1, Post Eth_blockNumber])" by blast
  from t [of ?tr "[]" _ 2 "hex 2" ?w1 2 2 2 "Some (1, 86400)" ?w2] b1 b2 b3 b4 b5
  have c2: "get_closest_block_timestamp ?tr 2 []
     = (Inr None, ?w2 @ [Call (Eth_getBlockByNumber (hex 2)), Post (Eth_getBlockByNumber (hex 2)),
           Sleep 1, Post (Eth_getBlockByNumber (hex 2)), Sleep 1,
           Post (Eth_getBlockByNumber (hex 2))])" by blast
  from a1 c1 b1 b2 b3 b4 b5 c2 show ?thesis by simp
qed

section \<open>The search on a synthetic chain\<close>

lemma chain_block_call:
  assumes "0 \<le> b" "b \<le> head"
  shows "call_rpc (getBlock_reply (chain head ts) (hex b)) (Eth_getBlockByNumber (hex b)) 3 1 w
         = (Some (Val (Val (hex (ts b)))),
            w @ [Call (Eth_getBlockByNumber (hex b)), Post (Eth_getBlockByNumber (hex b))])"
  using assms by (intro call_rpc_success) (simp_all add: chain_def py_int16_hex)

lemma loop_chain_step:
  assumes "low \<le> high" "0 \<le> low" "high \<le> head"
  shows "get_closest_block_timestamp_loop (chain head ts) target_date low high chosen w =
     (case utcfromtimestamp (ts ((low + high) div 2)) of
        None \<Rightarrow> (Inl DateRangeError,
                  w @ [Call (Eth_getBlockByNumber (hex ((low + high) div 2))),
                       Post (Eth_getBlockByNumber (hex ((low + high) div 2)))])
      | Some block_datetime \<Rightarrow>
          if date block_datetime = target_date
          then (Inr (Some ((low + high) div 2, block_datetime)),
                w @ [Call (Eth_getBlockByNumber (hex ((low + high) div 2))),
                     Post (Eth_getBlockByNumber (hex ((low + high) div 2)))])
          else if date block_datetime < target_date
          then get_closest_block_timestamp_loop (chain head ts) target_date
                 ((low + high) div 2 + 1) high (Some ((low + high) div 2, block_datetime))
                 (w @ [Call (Eth_getBlockByNumber (hex ((low + high) div 2))),
                       Post (Eth_getBlockByNumber (hex ((low + high) div 2)))])
          else get_closest_block_timestamp_loop (chain head ts) target_date low
                 ((low + high) div 2 - 1) chosen
                 (w @ [Call (Eth_getBlockByNumber (hex ((low + high) div 2))),
                       Post (Eth_getBlockByNumber (hex ((low + high) div 2)))]))"
proof -
  have m: "0 \<le> (low + high) div 2" "(low + high) div 2 \<le> head"
    using assms by auto
  show ?thesis
    unfolding loop_unfold [OF assms(1) chain_block_call [OF m]]
    by (simp add: py_int16_hex)
qed

lemma utcfromtimestamp_Some: "utcfromtimestamp ts = Some dt \<Longrightarrow> dt = ts"
  by (simp add: utcfromtimestamp_def split: if_splits)

lemma resolve_chain:
  "get_closest_block_timestamp (chain head ts) target_date w
     = get_closest_block_timestamp_loop (chain head ts) target_date 0 head None
         (w @ [Call Eth_blockNumber, Post Eth_blockNumber])"
  using resolve_with_head [OF chain_head_call py_int16_hex] .

lemma loop_chain_sound:
  assumes "0 \<le> low" "high \<le> head"
    and "case chosen of None \<Rightarrow> True
         | Some (b, dt) \<Rightarrow> 0 \<le> b \<and> b \<le> head \<and> dt = ts b \<and> date (ts b) \<le> target_date"
  shows "case fst (get_closest_block_timestamp_loop (chain head ts) target_date low high chosen w) of
           Inl e \<Rightarrow> True
         | Inr None \<Rightarrow> True
         | Inr (Some (b, dt)) \<Rightarrow> 0 \<le> b \<and> b \<le> head \<and> dt = ts b \<and> date (ts b) \<le> target_date"
  using assms
proof (induction "nat (high - low + 1)" arbitrary: low high chosen w rule: less_induct)
  case less
  show ?case
  proof (cases "low \<le> high")
    case False
    with less.prems(3) show ?thesis by (simp add: loop_exit split: option.splits)
  next
    case True
    let ?mid = "(low + high) div 2"
    let ?w = "w @ [Call (Eth_getBlockByNumber (hex ?mid)), Post (Eth_getBlockByNumber (hex ?mid))]"
    note step = loop_chain_step [OF True less.prems(1,2), of ts target_date chosen w]
    note h = halves [OF True]
    have m: "0 \<le> ?mid" "?mid \<le> head" "low \<le> ?mid" "?mid \<le> high"
      using True less.prems(1,2) by auto
    show ?thesis
    proof (cases "utcfromtimestamp (ts ?mid)")
      case None
      then show ?thesis unfolding step by simp
    next
      case (Some dt)
      then have dt: "dt = ts ?mid" by (rule utcfromtimestamp_Some)
      consider (eq) "date dt = target_date" | (lt) "date dt < target_date"
        | (gt) "target_date < date dt" by linarith
      then show ?thesis
      proof cases
        case eq
        then show ?thesis unfolding step Some using m dt by simp
      next
        case lt
        have sm: "nat (high - (?mid + 1) + 1) < nat (high - low + 1)" using h(1) h(3) by linarith
        have "case fst (get_closest_block_timestamp_loop (chain head ts) target_date (?mid + 1) high
                 (Some (?mid, dt)) ?w) of
           Inl e \<Rightarrow> True
         | Inr None \<Rightarrow> True
         | Inr (Some (b, dt)) \<Rightarrow> 0 \<le> b \<and> b \<le> head \<and> dt = ts b \<and> date (ts b) \<le> target_date"
          using m dt lt less.prems(2) by (intro less.hyps [OF sm]) simp_all
        then show ?thesis unfolding step Some using lt by simp
      next
        case gt
        have sm: "nat (?mid - 1 - low + 1) < nat (high - low + 1)" using h(2) h(3) by linarith
        have "case fst (get_closest_block_timestamp_loop (chain head ts) target_date low (?mid - 1)
                 chosen ?w) of
           Inl e \<Rightarrow> True
         | Inr None \<Rightarrow> True
         | Inr (Some (b, dt)) \<Rightarrow> 0 \<le> b \<and> b \<le> head \<and> dt = ts b \<and> date (ts b) \<le> target_date"
          using m less.prems by (intro less.hyps [OF sm]) simp_all
        then show ?thesis unfolding step Some using gt by simp
      qed
    qed
  qed
qed

text \<open>
  C10. On a synthetic chain (with monotone timestamps or not), a block that the function
  returns has a number between 0 and the head, comes with its own timestamp, and its UTC
  date is on or before the target date.
\<close>

theorem resolve_block_in_range:
  assumes "fst (get_closest_block_timestamp (chain head ts) target_date w) = Inr (Some (b, dt))"
  shows "0 \<le> b \<and> b \<le> head \<and> dt = ts b \<and> date (ts b) \<le> target_date"
proof -
  have "case fst (get_closest_block_timestamp_loop (chain head ts) target_date 0 head None
                    (w @ [Call Eth_blockNumber, Post Eth_blockNumber])) of
           Inl e \<Rightarrow> True
         | Inr None \<Rightarrow> True
         | Inr (Some (b, dt)) \<Rightarrow> 0 \<le> b \<and> b \<le> head \<and> dt = ts b \<and> date (ts b) \<le> target_date"
    by (rule loop_chain_sound) simp_all
  with assms show ?thesis by (simp add: resolve_chain)
qed

lemma resolve_daily_example:
  "fst (get_closest_block_timestamp (chain 100 daily) 19727 []) = Inr (Some (4, 1704412800))"
  by (simp add: resolve_chain loop_chain_step loop_exit daily_def date_def utcfromtimestamp_def)

theorem resolve_block_in_range_witness:
  "fst (get_closest_block_timestamp (chain 100 daily) 19727 []) = Inr (Some (4, 1704412800)) \<and>
   (0::int) \<le> 4 \<and> (4::int) \<le> 100 \<and> 1704412800 = daily 4 \<and> date (daily 4) \<le> 19727"
  using resolve_block_in_range [OF resolve_daily_example] resolve_daily_example by blast

lemma date_mono: "a \<le> b \<Longrightarrow> date a \<le> date b"
  by (simp add: date_def zdiv_mono1)

lemma loop_chain_complete:
  assumes mono: "\<forall>b\<in>{0..head}. \<forall>b'\<in>{0..head}. b \<le> b' \<longrightarrow> ts b \<le> ts b'"
    and range: "\<forall>b\<in>{0..head}. utcfromtimestamp (ts b) = Some (ts b)"
    and bounds: "0 \<le> low" "high \<le> head" "low \<le> high + 1"
    and below: "\<forall>b\<in>{0..<low}. date (ts b) < target_date"
    and above: "\<forall>b\<in>{high<..head}. target_date < date (ts b)"
    and cand: "chosen = (if low = 0 then None else Some (low - 1, ts (low - 1)))"
  shows "case fst (get_closest_block_timestamp_loop (chain head ts) target_date low high chosen w) of
           Inl e \<Rightarrow> False
         | Inr None \<Rightarrow> (\<forall>b\<in>{0..head}. target_date < date (ts b))
         | Inr (Some (b, dt)) \<Rightarrow>
             b \<in> {0..head} \<and> dt = ts b \<and> date (ts b) \<le> target_date \<and>
             (date (ts b) = target_date \<or>
              (\<forall>b'\<in>{0..head}. date (ts b') \<le> target_date \<longrightarrow> b' \<le> b))"
  using bounds below above cand
proof (induction "nat (high - low + 1)" arbitrary: low high chosen w rule: less_induct)
  case less
  show ?case
  proof (cases "low \<le> high")
    case False
    with less.prems(3) have hl: "high = low - 1" by simp
    show ?thesis
    proof (cases "low = 0")
      case True
      have "\<forall>b\<in>{0..head}. target_date < date (ts b)"
        using less.prems(5) hl True by simp
      with False True less.prems(6) show ?thesis by (simp add: loop_exit)
    next
      case nz: False
      have a: "low - 1 \<in> {0..head}" using nz less.prems(1,2) hl by simp
      have b: "date (ts (low - 1)) < target_date" using less.prems(4) nz less.prems(1) by simp
      have c: "\<forall>b'\<in>{0..head}. date (ts b') \<le> target_date \<longrightarrow> b' \<le> low - 1"
      proof (intro ballI impI)
        fix b' assume b': "b' \<in> {0..head}" and d: "date (ts b') \<le> target_date"
        show "b' \<le> low - 1"
        proof (rule ccontr)
          assume "\<not> b' \<le> low - 1"
          with b' hl have "b' \<in> {high<..head}" by simp
          with less.prems(5) have "target_date < date (ts b')" by blast
          with d show False by simp
        qed
      qed
      from a b c False nz less.prems(6) show ?thesis by (simp add: loop_exit)
    qed
  next
    case True
    let ?mid = "(low + high) div 2"
    let ?w = "w @ [Call (Eth_getBlockByNumber (hex ?mid)), Post (Eth_getBlockByNumber (hex ?mid))]"
    note step = loop_chain_step [OF True less.prems(1,2), of ts target_date chosen w]
    note h = halves [OF True]
    have m: "0 \<le> ?mid" "?mid \<le> head" "low \<le> ?mid" "?mid \<le> high"
      using True less.prems(1,2) by auto
    then have min: "?mid \<in> {0..head}" by simp
    have Some: "utcfromtimestamp (ts ?mid) = Some (ts ?mid)" using range min by blast
    consider (eq) "date (ts ?mid) = target_date" | (lt) "date (ts ?mid) < target_date"
      | (gt) "target_date < date (ts ?mid)" by linarith
    then show ?thesis
    proof cases
      case eq
      then show ?thesis unfolding step Some using m by simp
    next
      case lt
      have sm: "nat (high - (?mid + 1) + 1) < nat (high - low + 1)" using h(1) h(3) by linarith
      have below': "\<forall>b\<in>{0..<?mid + 1}. date (ts b) < target_date"
      proof
        fix b assume b: "b \<in> {0..<?mid + 1}"
        then have "b \<in> {0..head}" "b \<le> ?mid" using m by auto
        with mono min have "ts b \<le> ts ?mid" by blast
        then have "date (ts b) \<le> date (ts ?mid)" by (rule date_mono)
        with lt show "date (ts b) < target_date" by simp
      qed
      have cand': "Some (?mid, ts ?mid)
                   = (if ?mid + 1 = 0 then None else Some (?mid + 1 - 1, ts (?mid + 1 - 1)))"
        using m by simp
      have b1: "0 \<le> ?mid + 1" using m by simp
      have b3: "?mid + 1 \<le> high + 1" using m by simp
      have "case fst (get_closest_block_timestamp_loop (chain head ts) target_date (?mid + 1) high
                 (Some (?mid, ts ?mid)) ?w) of
           Inl e \<Rightarrow> False
         | Inr None \<Rightarrow> (\<forall>b\<in>{0..head}. target_date < date (ts b))
         | Inr (Some (b, dt)) \<Rightarrow>
             b \<in> {0..head} \<and> dt = ts b \<and> date (ts b) \<le> target_date \<and>
             (date (ts b) = target_date \<or>
              (\<forall>b'\<in>{0..head}. date (ts b') \<le> target_date \<longrightarrow> b' \<le> b))"
        by (rule less.hyps [OF sm b1 less.prems(2) b3 below' less.prems(5) cand'])
      then show ?thesis unfolding step Some using lt by simp
    next
      case gt
      have sm: "nat (?mid - 1 - low + 1) < nat (high - low + 1)" using h(2) h(3) by linarith
      have above': "\<forall>b\<in>{?mid - 1<..head}. target_date < date (ts b)"
      proof
        fix b assume b: "b \<in> {?mid - 1<..head}"
        then have "b \<in> {0..head}" "?mid \<le> b" using m by auto
        with mono min have "ts ?mid \<le> ts b" by blast
        then have "date (ts ?mid) \<le> date (ts b)" by (rule date_mono)
        with gt show "target_date < date (ts b)" by simp
      qed
      have b2: "?mid - 1 \<le> head" using m by simp
      have b3: "low \<le> ?mid - 1 + 1" using m by simp
      have "case fst (get_closest_block_timestamp_loop (chain head ts) target_date low (?mid - 1)
                 chosen ?w) of
           Inl e \<Rightarrow> False
         | Inr None \<Rightarrow> (\<forall>b\<in>{0..head}. target_date < date (ts b))
         | Inr (Some (b, dt)) \<Rightarrow>
             b \<in> {0..head} \<and> dt = ts b \<and> date (ts b) \<le> target_date \<and>
             (date (ts b) = target_date \<or>
              (\<forall>b'\<in>{0..head}. date (ts b') \<le> target_date \<longrightarrow> b' \<le> b))"
        by (rule less.hyps [OF sm less.prems(1) b2 b3 less.prems(4) above' less.prems(6)])
      then show ?thesis unfolding step Some using gt by simp
    qed
  qed
qed


text \<open>
  C1 (amended). On a synthetic chain whose timestamps never decrease with the block number
  and all lie in the years 1 to 9999, the function never raises; it returns \<open>(None, None)\<close>
  exactly when every block of the chain is dated after the target date; and a block it
  returns is a block of the chain dated on or before the target date that either is dated
  on the target date itself (the first such block the search lands on, which need not be
  the greatest) or is the greatest block dated on or before the target date.
\<close>

theorem resolve_monotone_chain:
  assumes "\<forall>b\<in>{0..head}. \<forall>b'\<in>{0..head}. b \<le> b' \<longrightarrow> ts b \<le> ts b'"
    and "\<forall>b\<in>{0..head}. - 62135596800 \<le> ts b \<and> ts b \<le> 253402300799"
  shows "case fst (get_closest_block_timestamp (chain head ts) target_date w) of
           Inl e \<Rightarrow> False
         | Inr None \<Rightarrow> (\<forall>b\<in>{0..head}. target_date < date (ts b))
         | Inr (Some (b, dt)) \<Rightarrow>
             b \<in> {0..head} \<and> dt = ts b \<and> date (ts b) \<le> target_date \<and>
             (date (ts b) = target_date \<or>
              (\<forall>b'\<in>{0..head}. date (ts b') \<le> target_date \<longrightarrow> b' \<le> b))"
proof -
  have range: "\<forall>b\<in>{0..head}. utcfromtimestamp (ts b) = Some (ts b)"
    using assms(2) by (simp add: utcfromtimestamp_def)
  have "case fst (get_closest_block_timestamp_loop (chain head ts) target_date 0 head None
                    (w @ [Call Eth_blockNumber, Post Eth_blockNumber])) of
           Inl e \<Rightarrow> False
         | Inr None \<Rightarrow> (\<forall>b\<in>{0..head}. target_date < date (ts b))
         | Inr (Some (b, dt)) \<Rightarrow>
             b \<in> {0..head} \<and> dt = ts b \<and> date (ts b) \<le> target_date \<and>
             (date (ts b) = target_date \<or>
              (\<forall>b'\<in>{0..head}. date (ts b') \<le> target_date \<longrightarrow> b' \<le> b))"
  proof (cases "0 \<le> head + 1")
    case True
    show ?thesis
      by (rule loop_chain_complete [OF assms(1) range _ _ True]) simp_all
  next
    case False
    then have "\<not> 0 \<le> head" by simp
    then show ?thesis by (simp add: loop_exit)
  qed
  then show ?thesis by (simp only: resolve_chain)
qed

theorem resolve_monotone_chain_witness:
  "fst (get_closest_block_timestamp (chain 100 daily) 19727 []) = Inr (Some (4, 1704412800)) \<and>
   (4::int) \<in> {0..100} \<and> 1704412800 = daily 4 \<and> date (daily 4) \<le> 19727 \<and>
   (date (daily 4) = 19727 \<or> (\<forall>b'\<in>{0..100}. date (daily b') \<le> 19727 \<longrightarrow> b' \<le> 4))"
proof -
  have a: "\<forall>b\<in>{0..100}. \<forall>b'\<in>{0..100}. b \<le> b' \<longrightarrow> daily b \<le> daily b'"
    by (simp add: daily_def)
  have b: "\<forall>b\<in>{0..100}. - 62135596800 \<le> daily b \<and> daily b \<le> 253402300799"
    by (auto simp add: daily_def)
  from resolve_monotone_chain [OF a b, of 19727 "[]"]
  have "(4::int) \<in> {0..100} \<and> 1704412800 = daily 4 \<and> date (daily 4) \<le> 19727 \<and>
   (date (daily 4) = 19727 \<or> (\<forall>b'\<in>{0..100}. date (daily b') \<le> 19727 \<longrightarrow> b' \<le> 4))"
    by (simp only: resolve_daily_example fst_conv sum.case option.case prod.case)
  with resolve_daily_example show ?thesis by blast
qed

text \<open>
  C1 as stated fails: on the chain of blocks 0, 1 and 2 that all carry the timestamp 0,
  for the target date of that timestamp, the search stops at its first midpoint, block 1,
  while block 2 is a greater block dated on or before the target date.
\<close>

theorem resolve_greatest_counterexample:
  "same_day 0 \<le> same_day 1 \<and> same_day 1 \<le> same_day 2 \<and>
   fst (get_closest_block_timestamp (chain 2 same_day) 0 []) = Inr (Some (1, 0)) \<and>
   (1::int) < 2 \<and> (2::int) \<le> 2 \<and> date (same_day 2) \<le> 0"
  by (simp add: resolve_chain loop_chain_step same_day_def date_def utcfromtimestamp_def)

section \<open>Decoding a batch of responses\<close>

lemma map_of_enumerate:
  "map_of (map (\<lambda>(i, token). (int i, token)) (enumerate n xs)) i
     = (if int n \<le> i \<and> i < int n + int (length xs) then Some (xs ! nat (i - int n)) else None)"
proof (induction xs arbitrary: n)
  case Nil
  show ?case by simp
next
  case (Cons x xs)
  show ?case
  proof (cases "i = int n")
    case True
    then show ?thesis by simp
  next
    case False
    have "map_of (map (\<lambda>(i, token). (int i, token)) (enumerate n (x # xs))) i
          = map_of (map (\<lambda>(i, token). (int i, token)) (enumerate (Suc n) xs)) i"
      using False by simp
    also have "\<dots> = (if int (Suc n) \<le> i \<and> i < int (Suc n) + int (length xs)
                      then Some (xs ! nat (i - int (Suc n))) else None)"
      by (rule Cons.IH)
    also have "\<dots> = (if int n \<le> i \<and> i < int n + int (length (x # xs))
                      then Some ((x # xs) ! nat (i - int n)) else None)"
    proof (cases "int (Suc n) \<le> i \<and> i < int (Suc n) + int (length xs)")
      case True
      then have "nat (i - int n) = Suc (nat (i - int (Suc n)))" by linarith
      with True show ?thesis by simp
    next
      case out: False
      with False show ?thesis by auto
    qed
    finally show ?thesis .
  qed
qed

lemma map_of_id_to_token:
  "map_of (id_to_token tokens) i
     = (if 0 \<le> i \<and> i < int (length tokens) then Some (tokens ! nat i) else None)"
  using map_of_enumerate [of 0 tokens i] by (simp add: id_to_token_def)

lemma correlate_id_to_token:
  "correlate (id_to_token tokens) resp
     = (case resp_id resp of
          None \<Rightarrow> None
        | Some i \<Rightarrow> if 0 \<le> i \<and> i < int (length tokens) then Some (tokens ! nat i) else None)"
  by (simp add: correlate_def map_of_id_to_token split: option.split)


lemma decode_responses_Cons:
  "decode_responses id_to_tok (resp # responses) token_supplies =
     decode_responses id_to_tok responses
       (case correlate id_to_tok resp of
          None \<Rightarrow> token_supplies
        | Some token_info \<Rightarrow>
            AList.update (name token_info) (decode_result (resp_result resp)) token_supplies)"
  by (simp add: correlate_def split: option.split)

lemma find_append:
  "List.find P (xs @ ys) = (case List.find P xs of None \<Rightarrow> List.find P ys | Some x \<Rightarrow> Some x)"
  by (induction xs) simp_all

lemma decode_lookup:
  "map_of (decode_responses id_to_tok rs acc) k
     = (case List.find (answers id_to_tok k) (rev rs) of
          None \<Rightarrow> map_of acc k
        | Some r \<Rightarrow> Some (decode_result (resp_result r)))"
proof (induction rs arbitrary: acc)
  case Nil
  show ?case by simp
next
  case (Cons r rs)
  let ?acc = "case correlate id_to_tok r of
          None \<Rightarrow> acc
        | Some token_info \<Rightarrow> AList.update (name token_info) (decode_result (resp_result r)) acc"
  have acc: "map_of ?acc k
             = (if answers id_to_tok k r then Some (decode_result (resp_result r)) else map_of acc k)"
    by (cases "correlate id_to_tok r") (auto simp add: answers_def update_conv')
  have "map_of (decode_responses id_to_tok (r # rs) acc) k
        = map_of (decode_responses id_to_tok rs ?acc) k"
    by (simp only: decode_responses_Cons)
  also have "\<dots> = (case List.find (answers id_to_tok k) (rev rs) of
          None \<Rightarrow> map_of ?acc k
        | Some r \<Rightarrow> Some (decode_result (resp_result r)))"
    by (rule Cons.IH)
  also have "\<dots> = (case List.find (answers id_to_tok k) (rev (r # rs)) of
          None \<Rightarrow> map_of acc k
        | Some r \<Rightarrow> Some (decode_result (resp_result r)))"
    by (simp add: find_append acc split: option.split)
  finally show ?case .
qed


lemma call_rpc_batch_replies:
  "call_rpc_batch (batch_reply (replies rs) payload) p 3 1 w = (Some rs, w @ [Call p, Post p])"
  by (rule call_rpc_batch_success) (simp_all add: replies_def)

lemma supplies_decoded:
  assumes "fst (call_rpc_batch (batch_reply tr (batch_payload tokens block_number))
                  (Eth_call_batch (batch_payload tokens block_number)) 3 1 w) = Some rs"
  shows "fst (get_token_total_supplies tokens tr block_number w)
           = decode_responses (id_to_token tokens) rs []"
  using assms
  by (auto simp add: get_token_total_supplies_def Let_def simp del: One_nat_def split: prod.split)

lemma supplies_replies:
  "fst (get_token_total_supplies tokens (replies rs) block_number w)
     = decode_responses (id_to_token tokens) rs []"
  by (rule supplies_decoded) (simp add: call_rpc_batch_replies del: One_nat_def)

lemma answers_iff:
  assumes "distinct (map name tokens)" "i < length tokens"
  shows "answers (id_to_token tokens) (name (tokens ! i)) r \<longleftrightarrow> resp_id r = Some (int i)"
proof
  assume "answers (id_to_token tokens) (name (tokens ! i)) r"
  then obtain j where j: "resp_id r = Some j" "0 \<le> j" "j < int (length tokens)"
    "name (tokens ! nat j) = name (tokens ! i)"
    by (auto simp add: answers_def correlate_id_to_token split: option.splits if_splits)
  have b: "nat j < length (map name tokens)" "i < length (map name tokens)"
    using j assms(2) by simp_all
  have "map name tokens ! nat j = map name tokens ! i" using j assms(2) by simp
  then have "nat j = i" by (simp only: nth_eq_iff_index_eq [OF assms(1) b])
  with j show "resp_id r = Some (int i)" by simp
next
  assume "resp_id r = Some (int i)"
  with assms(2) show "answers (id_to_token tokens) (name (tokens ! i)) r"
    by (simp add: answers_def correlate_id_to_token)
qed

lemma entry_lookup:
  assumes "distinct (map name tokens)" "i < length tokens"
  shows "map_of (decode_responses (id_to_token tokens) rs []) (name (tokens ! i))
     = (case List.find (\<lambda>r. resp_id r = Some (int i)) (rev rs) of
          None \<Rightarrow> None
        | Some r \<Rightarrow> Some (decode_result (resp_result r)))"
proof -
  have "answers (id_to_token tokens) (name (tokens ! i)) = (\<lambda>r. resp_id r = Some (int i))"
    using answers_iff [OF assms] by (intro ext)
  then show ?thesis by (simp add: decode_lookup split: option.split)
qed

lemma find_filter_hd:
  "List.find P xs = (case filter P xs of [] \<Rightarrow> None | x # _ \<Rightarrow> Some x)"
  by (induction xs) simp_all




lemma distinct_TOKENS: "distinct (map name TOKENS)"
  by (simp add: TOKENS_def)

lemma TOKENS_nth: "name (TOKENS ! 0) = ''USDC''" "name (TOKENS ! 1) = ''USDT''"
  "name (TOKENS ! 2) = ''SFASTUSD''" "length TOKENS = 3"
  by (simp_all add: TOKENS_def)

lemma id_to_token_TOKENS:
  "id_to_token TOKENS = [(0, TOKENS ! 0), (1, TOKENS ! 1), (2, TOKENS ! 2)]"
  by (simp add: id_to_token_def TOKENS_def)

lemma decode_3e8: "decode_result (Some ''0x3e8'') = Some 1000"
  by (simp add: decode_result_def py_int16_def skip_sign_def skip_prefix_def py_isspace_def
      digit_value_def)


lemma retries_loop_exit:
  "\<not> attempt < max_retries \<Longrightarrow>
   get_token_total_supplies_with_retries_loop tokens tr block_number max_retries delay attempt w
     = (None, w)"
  by (subst get_token_total_supplies_with_retries_loop.simps) simp

lemma retries_loop_unfold:
  assumes "attempt < max_retries"
    and "get_token_total_supplies tokens tr block_number w = (supplies, w')"
  shows "get_token_total_supplies_with_retries_loop tokens tr block_number max_retries delay
           attempt w
         = (if supplies \<noteq> [] \<and> list_all (\<lambda>supply. supply \<noteq> None) (map snd supplies)
            then (Some supplies, w')
            else get_token_total_supplies_with_retries_loop tokens tr block_number max_retries
                   delay (attempt + 1) (w' @ [Sleep delay]))"
  using assms by (subst get_token_total_supplies_with_retries_loop.simps) simp





lemma TOKENS_nth_Suc: "name (TOKENS ! Suc 0) = ''USDT''"
  by (simp add: TOKENS_def)

lemma decode_result_cases:
  "decode_result None = Some 0" "decode_result (Some ''0x'') = Some 0"
  "decode_result (Some ''0x0'') = Some 0"
  "s \<noteq> ''0x'' \<Longrightarrow> s \<noteq> ''0x0'' \<Longrightarrow> decode_result (Some s) = py_int16 s"
  by (simp_all add: decode_result_def)

lemma decode_result_hex: "decode_result (Some (hex n)) = Some n"
proof (cases "hex n = ''0x'' \<or> hex n = ''0x0''")
  case False
  then show ?thesis by (simp add: decode_result_def py_int16_hex)
next
  case True
  then have "py_int16 (hex n) = py_int16 ''0x'' \<or> py_int16 (hex n) = py_int16 ''0x0''"
    by auto
  moreover have "py_int16 ''0x'' = None" "py_int16 ''0x0'' = Some 0"
    by (simp_all add: py_int16_def skip_sign_def skip_prefix_def py_isspace_def digit_value_def)
  ultimately have "n = 0" by (simp add: py_int16_hex)
  with True show ?thesis by (auto simp add: decode_result_def)
qed

lemma find_rev_remove:
  assumes "\<not> P r"
  shows "List.find P (rev (filter (\<lambda>x. x \<noteq> r) xs)) = List.find P (rev xs)"
proof -
  have "filter P (filter (\<lambda>x. x \<noteq> r) xs) = filter P xs"
    using assms by (induction xs) auto
  then have "filter P (rev (filter (\<lambda>x. x \<noteq> r) xs)) = filter P (rev xs)"
    by (simp only: rev_filter [symmetric])
  then show ?thesis by (simp only: find_filter_hd [of P])
qed

text \<open>
  C2 (amended). The entry of a token is decoded from the last response that carries its
  id: a result that is missing, \<open>"0x"\<close> or \<open>"0x0"\<close> gives 0; any other result gives what
  \<open>int(result, 16)\<close> gives, which for \<open>hex(n)\<close> is \<open>n\<close>, negative when the string has a
  minus sign; a string that \<open>int\<close> rejects gives \<open>None\<close>. The entries of the other
  tokens are the ones decoded without that response.
\<close>

theorem batch_entry_decoding:
  assumes "fst (call_rpc_batch (batch_reply tr (batch_payload tokens block_number))
                  (Eth_call_batch (batch_payload tokens block_number)) 3 1 w) = Some rs"
    and "distinct (map name tokens)"
    and "i < length tokens"
    and "List.find (\<lambda>r. resp_id r = Some (int i)) (rev rs) = Some r"
  shows "map_of (fst (get_token_total_supplies tokens tr block_number w)) (name (tokens ! i))
           = Some (decode_result (resp_result r)) \<and>
         (resp_result r \<in> {None, Some ''0x'', Some ''0x0''}
            \<longrightarrow> decode_result (resp_result r) = Some 0) \<and>
         (\<forall>s. resp_result r = Some s \<and> s \<noteq> ''0x'' \<and> s \<noteq> ''0x0''
            \<longrightarrow> decode_result (resp_result r) = py_int16 s) \<and>
         (\<forall>n. decode_result (Some (hex n)) = Some n) \<and>
         (\<forall>j<length tokens. j \<noteq> i \<longrightarrow>
            map_of (fst (get_token_total_supplies tokens tr block_number w)) (name (tokens ! j))
              = map_of (decode_responses (id_to_token tokens) (filter (\<lambda>x. x \<noteq> r) rs) [])
                  (name (tokens ! j)))"
proof (intro conjI allI impI)
  note d = supplies_decoded [OF assms(1)]
  show "map_of (fst (get_token_total_supplies tokens tr block_number w)) (name (tokens ! i))
           = Some (decode_result (resp_result r))"
    unfolding d entry_lookup [OF assms(2,3)] by (simp add: assms(4))
  show "decode_result (resp_result r) = Some 0"
    if "resp_result r \<in> {None, Some ''0x'', Some ''0x0''}"
    using that by (auto simp add: decode_result_cases)
  show "decode_result (resp_result r) = py_int16 s"
    if "resp_result r = Some s \<and> s \<noteq> ''0x'' \<and> s \<noteq> ''0x0''" for s
    using that by (simp add: decode_result_cases)
  show "decode_result (Some (hex n)) = Some n" for n
    by (rule decode_result_hex)
  show "map_of (fst (get_token_total_supplies tokens tr block_number w)) (name (tokens ! j))
          = map_of (decode_responses (id_to_token tokens) (filter (\<lambda>x. x \<noteq> r) rs) [])
              (name (tokens ! j))"
    if j: "j < length tokens" "j \<noteq> i" for j
  proof -
    have "resp_id r = Some (int i)"
      using assms(4) by (auto simp add: find_Some_iff)
    with j(2) have "\<not> resp_id r = Some (int j)" by simp
    then have eq: "List.find (\<lambda>r. resp_id r = Some (int j)) (rev (filter (\<lambda>x. x \<noteq> r) rs))
                   = List.find (\<lambda>r. resp_id r = Some (int j)) (rev rs)"
      by (rule find_rev_remove)
    show ?thesis
      unfolding d entry_lookup [OF assms(2) j(1)] by (simp only: eq)
  qed
qed

text \<open>
  C2 as stated fails: a result with a minus sign is neither rejected nor decoded as an
  unsigned integer; \<open>"-0xa"\<close> decodes to \<open>- 10\<close>.
\<close>

theorem batch_signed_result_counterexample:
  "fst (get_token_total_supplies TOKENS
          (replies [\<lparr>resp_id = Some 0, resp_result = Some ''-0xa''\<rparr>]) 4 [])
     = [(''USDC'', Some (- 10))]"
  by (simp add: supplies_replies id_to_token_TOKENS TOKENS_nth decode_result_def py_int16_def
      skip_sign_def skip_prefix_def py_isspace_def digit_value_def)


theorem batch_entry_decoding_witness:
  "fst (call_rpc_batch
          (batch_reply (replies [\<lparr>resp_id = Some 0, resp_result = Some ''0x3e8''\<rparr>,
                                 \<lparr>resp_id = Some 1, resp_result = Some ''not-hex''\<rparr>,
                                 \<lparr>resp_id = Some 2, resp_result = None\<rparr>])
             (batch_payload TOKENS 4))
          (Eth_call_batch (batch_payload TOKENS 4)) 3 1 [])
     = Some [\<lparr>resp_id = Some 0, resp_result = Some ''0x3e8''\<rparr>,
             \<lparr>resp_id = Some 1, resp_result = Some ''not-hex''\<rparr>,
             \<lparr>resp_id = Some 2, resp_result = None\<rparr>] \<and>
   distinct (map name TOKENS) \<and> (1::nat) < length TOKENS \<and>
   List.find (\<lambda>r. resp_id r = Some (int 1))
     (rev [\<lparr>resp_id = Some 0, resp_result = Some ''0x3e8''\<rparr>,
           \<lparr>resp_id = Some 1, resp_result = Some ''not-hex''\<rparr>,
           \<lparr>resp_id = Some 2, resp_result = None\<rparr>])
     = Some \<lparr>resp_id = Some 1, resp_result = Some ''not-hex''\<rparr> \<and>
   map_of (fst (get_token_total_supplies TOKENS
          (replies [\<lparr>resp_id = Some 0, resp_result = Some ''0x3e8''\<rparr>,
                    \<lparr>resp_id = Some 1, resp_result = Some ''not-hex''\<rparr>,
                    \<lparr>resp_id = Some 2, resp_result = None\<rparr>]) 4 []))
     (name (TOKENS ! 1)) = Some None \<and>
   fst (get_token_total_supplies TOKENS
          (replies [\<lparr>resp_id = Some 0, resp_result = Some ''0x3e8''\<rparr>,
                    \<lparr>resp_id = Some 1, resp_result = Some ''not-hex''\<rparr>,
                    \<lparr>resp_id = Some 2, resp_result = None\<rparr>]) 4 [])
     = [(''USDC'', Some 1000), (''USDT'', None), (''SFASTUSD'', Some 0)]"
proof -
  let ?rs = "[\<lparr>resp_id = Some 0, resp_result = Some ''0x3e8''\<rparr>,
              \<lparr>resp_id = Some 1, resp_result = Some ''not-hex''\<rparr>,
              \<lparr>resp_id = Some 2, resp_result = None\<rparr>]"
  have a: "fst (call_rpc_batch (batch_reply (replies ?rs) (batch_payload TOKENS 4))
                  (Eth_call_batch (batch_payload TOKENS 4)) 3 1 []) = Some ?rs"
    by (simp add: call_rpc_batch_replies del: One_nat_def)
  have c: "(1::nat) < length TOKENS" by (simp add: TOKENS_nth)
  have f: "List.find (\<lambda>r. resp_id r = Some (int 1)) (rev ?rs)
           = Some \<lparr>resp_id = Some 1, resp_result = Some ''not-hex''\<rparr>" by simp
  have n: "decode_result (Some ''not-hex'') = None"
    by (simp add: decode_result_def py_int16_def skip_sign_def skip_prefix_def py_isspace_def
        digit_value_def)
  have e: "map_of (fst (get_token_total_supplies TOKENS (replies ?rs) 4 [])) (name (TOKENS ! 1))
           = Some None"
    using batch_entry_decoding [OF a distinct_TOKENS c f] n by simp
  have v: "fst (get_token_total_supplies TOKENS (replies ?rs) 4 [])
           = [(''USDC'', Some 1000), (''USDT'', None), (''SFASTUSD'', Some 0)]"
    by (simp add: supplies_replies id_to_token_TOKENS TOKENS_nth TOKENS_nth_Suc decode_3e8 n
        decode_result_cases)
  from a distinct_TOKENS c f e v show ?thesis by blast
qed










lemma retries_loop_result:
  "fst (get_token_total_supplies_with_retries_loop tokens tr block_number max_retries delay
          attempt w) = None \<or>
   (\<exists>supplies h. fst (get_token_total_supplies_with_retries_loop tokens tr block_number max_retries
                   delay attempt w) = Some supplies \<and>
      supplies = fst (get_token_total_supplies tokens tr block_number h) \<and>
      supplies \<noteq> [] \<and> None \<notin> snd ` set supplies)"
proof (induction "nat (max_retries - attempt)" arbitrary: attempt w rule: less_induct)
  case less
  show ?case
  proof (cases "attempt < max_retries")
    case False
    then show ?thesis by (simp add: retries_loop_exit)
  next
    case True
    obtain supplies w' where g: "get_token_total_supplies tokens tr block_number w = (supplies, w')"
      by (cases "get_token_total_supplies tokens tr block_number w")
    note u = retries_loop_unfold [OF True g, of delay]
    show ?thesis
    proof (cases "supplies \<noteq> [] \<and> list_all (\<lambda>supply. supply \<noteq> None) (map snd supplies)")
      case ok: True
      then have "None \<notin> snd ` set supplies" by (auto simp add: list_all_iff)
      moreover have "supplies = fst (get_token_total_supplies tokens tr block_number w)"
        by (simp add: g)
      ultimately show ?thesis using ok unfolding u by auto
    next
      case no: False
      have "nat (max_retries - (attempt + 1)) < nat (max_retries - attempt)"
        using True by simp
      moreover have "get_token_total_supplies_with_retries_loop tokens tr block_number
               max_retries delay attempt w
             = get_token_total_supplies_with_retries_loop tokens tr block_number
                 max_retries delay (attempt + 1) (w' @ [Sleep delay])"
        unfolding u using no by (simp only: if_False)
      ultimately show ?thesis using less [of "attempt + 1" "w' @ [Sleep delay]"] by simp
    qed
  qed
qed

lemma retries_loop_exhausted:
  assumes "\<And>h. fst (get_token_total_supplies tokens tr block_number h) = []
               \<or> None \<in> snd ` set (fst (get_token_total_supplies tokens tr block_number h))"
  shows "fst (get_token_total_supplies_with_retries_loop tokens tr block_number max_retries delay
          attempt w) = None"
proof -
  from retries_loop_result [of tokens tr block_number max_retries delay attempt w]
  show ?thesis
  proof
    assume "\<exists>supplies h. fst (get_token_total_supplies_with_retries_loop tokens tr block_number
                   max_retries delay attempt w) = Some supplies \<and>
      supplies = fst (get_token_total_supplies tokens tr block_number h) \<and>
      supplies \<noteq> [] \<and> None \<notin> snd ` set supplies"
    then obtain h where
      "fst (get_token_total_supplies tokens tr block_number h) \<noteq> []"
      "None \<notin> snd ` set (fst (get_token_total_supplies tokens tr block_number h))"
      by blast
    with assms [of h] show ?thesis by blast
  qed
qed

lemma decode_not_hex: "decode_result (Some ''not-hex'') = None"
  by (simp add: decode_result_def py_int16_def skip_sign_def skip_prefix_def py_isspace_def
      digit_value_def)

lemma supplies_not_hex:
  "fst (get_token_total_supplies TOKENS
          (replies [\<lparr>resp_id = Some 0, resp_result = Some ''0x3e8''\<rparr>,
                    \<lparr>resp_id = Some 1, resp_result = Some ''not-hex''\<rparr>]) 4 h)
     = [(''USDC'', Some 1000), (''USDT'', None)]"
  by (simp add: supplies_replies id_to_token_TOKENS TOKENS_nth TOKENS_nth_Suc decode_3e8
      decode_not_hex)

text \<open>
  C3 as stated fails: when the last attempt decodes \<open>USDC\<close> and leaves \<open>USDT\<close>
  unavailable, the wrapper returns \<open>None\<close> and not that mapping.
\<close>

theorem retries_drop_mapping_counterexample:
  "fst (get_token_total_supplies TOKENS
          (replies [\<lparr>resp_id = Some 0, resp_result = Some ''0x3e8''\<rparr>,
                    \<lparr>resp_id = Some 1, resp_result = Some ''not-hex''\<rparr>]) 4 [])
     = [(''USDC'', Some 1000), (''USDT'', None)] \<and>
   fst (get_token_total_supplies_with_retries TOKENS
          (replies [\<lparr>resp_id = Some 0, resp_result = Some ''0x3e8''\<rparr>,
                    \<lparr>resp_id = Some 1, resp_result = Some ''not-hex''\<rparr>]) 4 3 1 [])
     = None"
proof -
  let ?tr = "replies [\<lparr>resp_id = Some 0, resp_result = Some ''0x3e8''\<rparr>,
                      \<lparr>resp_id = Some 1, resp_result = Some ''not-hex''\<rparr>]"
  have "fst (get_token_total_supplies_with_retries_loop TOKENS ?tr 4 3 1 0 []) = None"
    by (rule retries_loop_exhausted) (simp add: supplies_not_hex)
  then show ?thesis
    by (simp add: supplies_not_hex get_token_total_supplies_with_retries_def del: One_nat_def)
qed

lemma distinct_all_equal: "distinct xs \<Longrightarrow> \<forall>x\<in>set xs. x = c \<Longrightarrow> length xs \<le> 1"
proof (cases xs)
  case Nil
  then show ?thesis by simp
next
  case (Cons x ys)
  assume d: "distinct xs" and e: "\<forall>x\<in>set xs. x = c"
  show ?thesis
  proof (cases ys)
    case Nil
    with Cons show ?thesis by simp
  next
    case (Cons y zs)
    with \<open>xs = x # ys\<close> d e show ?thesis by auto
  qed
qed

lemma answers_at_most_one:
  assumes "distinct (map name tokens)"
    and "distinct (map resp_id (filter (matched tokens) rs))"
  shows "length (filter (answers (id_to_token tokens) k) rs) \<le> 1"
proof (cases "\<exists>i<length tokens. name (tokens ! i) = k")
  case True
  then obtain i where i: "i < length tokens" "name (tokens ! i) = k" by blast
  let ?P = "\<lambda>r. resp_id r = Some (int i)"
  have P: "answers (id_to_token tokens) k = ?P"
    using answers_iff [OF assms(1) i(1)] i(2) by (intro ext) simp
  have "filter ?P (filter (matched tokens) rs) = filter ?P rs"
    using i(1) by (induction rs) (auto simp add: matched_def)
  moreover have "distinct (map resp_id (filter ?P (filter (matched tokens) rs)))"
    using assms(2) by (rule distinct_map_filter)
  ultimately have "distinct (map resp_id (filter ?P rs))" by simp
  moreover have "\<forall>x\<in>set (map resp_id (filter ?P rs)). x = Some (int i)" by auto
  ultimately have "length (map resp_id (filter ?P rs)) \<le> 1" by (rule distinct_all_equal)
  then show ?thesis by (simp add: P)
next
  case False
  have "\<not> answers (id_to_token tokens) k r" for r
  proof
    assume "answers (id_to_token tokens) k r"
    then obtain j where "0 \<le> j" "j < int (length tokens)" "name (tokens ! nat j) = k"
      by (auto simp add: answers_def correlate_id_to_token split: option.splits if_splits)
    then have "nat j < length tokens \<and> name (tokens ! nat j) = k" by simp
    with False show False by blast
  qed
  then have "filter (answers (id_to_token tokens) k) rs = []" by simp
  then show ?thesis by simp
qed

lemma single_filter_perm:
  assumes "mset xs' = mset xs" "length (filter P xs) \<le> 1"
  shows "filter P (rev xs') = filter P (rev xs)"
proof -
  have m: "mset (filter P xs') = mset (filter P xs)"
    using assms(1) by (simp only: mset_filter)
  have eq: "filter P xs' = filter P xs"
  proof (cases "filter P xs")
    case Nil
    with m show ?thesis by simp
  next
    case (Cons x ys)
    with assms(2) have "ys = []" by simp
    with Cons have one: "filter P xs = [x]" by simp
    have "mset (filter P xs') = {#x#}" unfolding m one by simp
    then have "filter P xs' = [x]" by (simp only: mset_single_iff)
    with one show ?thesis by simp
  qed
  have r: "rev (filter P xs) = filter P xs"
    using assms(2) by (cases "filter P xs") simp_all
  have "filter P (rev xs') = rev (filter P xs')" by (simp only: rev_filter)
  also have "\<dots> = rev (filter P xs)" by (simp only: eq)
  also have "\<dots> = filter P (rev xs)" by (simp only: rev_filter)
  finally show ?thesis .
qed

lemma decode_permuted:
  assumes "distinct (map name tokens)"
    and "distinct (map resp_id (filter (matched tokens) rs))"
    and "mset rs' = mset rs"
  shows "map_of (decode_responses (id_to_token tokens) rs' [])
           = map_of (decode_responses (id_to_token tokens) rs [])"
proof
  fix k
  have "filter (answers (id_to_token tokens) k) (rev rs')
          = filter (answers (id_to_token tokens) k) (rev rs)"
    using assms(3) answers_at_most_one [OF assms(1,2)] by (rule single_filter_perm)
  then have "List.find (answers (id_to_token tokens) k) (rev rs')
               = List.find (answers (id_to_token tokens) k) (rev rs)"
    by (simp only: find_filter_hd [of "answers (id_to_token tokens) k"])
  then show "map_of (decode_responses (id_to_token tokens) rs' []) k
               = map_of (decode_responses (id_to_token tokens) rs []) k"
    by (simp only: decode_lookup)
qed

text \<open>
  C7 (amended). For tokens with unique names and a batch in which no two responses carry
  the id of the same request, the mapping decoded from the responses in any other order
  is the same dictionary.
\<close>

theorem batch_reordering:
  assumes "distinct (map name tokens)"
    and "distinct (map resp_id (filter (matched tokens) rs))"
    and "mset rs' = mset rs"
    and "fst (call_rpc_batch (batch_reply tr (batch_payload tokens block_number))
                  (Eth_call_batch (batch_payload tokens block_number)) 3 1 w) = Some rs"
    and "fst (call_rpc_batch (batch_reply tr' (batch_payload tokens block_number))
                  (Eth_call_batch (batch_payload tokens block_number)) 3 1 w') = Some rs'"
  shows "map_of (fst (get_token_total_supplies tokens tr' block_number w'))
           = map_of (fst (get_token_total_supplies tokens tr block_number w))"
  unfolding supplies_decoded [OF assms(4)] supplies_decoded [OF assms(5)]
  using assms(1,2,3) by (rule decode_permuted)


theorem batch_reordering_witness:
  "fst (get_token_total_supplies TOKENS
          (replies [\<lparr>resp_id = Some 0, resp_result = Some ''0x3e8''\<rparr>,
                    \<lparr>resp_id = Some 1, resp_result = Some ''0x0''\<rparr>]) 4 [])
     = [(''USDC'', Some 1000), (''USDT'', Some 0)] \<and>
   fst (get_token_total_supplies TOKENS
          (replies [\<lparr>resp_id = Some 1, resp_result = Some ''0x0''\<rparr>,
                    \<lparr>resp_id = Some 0, resp_result = Some ''0x3e8''\<rparr>]) 4 [])
     = [(''USDT'', Some 0), (''USDC'', Some 1000)] \<and>
   map_of (fst (get_token_total_supplies TOKENS
          (replies [\<lparr>resp_id = Some 1, resp_result = Some ''0x0''\<rparr>,
                    \<lparr>resp_id = Some 0, resp_result = Some ''0x3e8''\<rparr>]) 4 []))
     = map_of (fst (get_token_total_supplies TOKENS
          (replies [\<lparr>resp_id = Some 0, resp_result = Some ''0x3e8''\<rparr>,
                    \<lparr>resp_id = Some 1, resp_result = Some ''0x0''\<rparr>]) 4 []))"
proof -
  let ?rs = "[\<lparr>resp_id = Some 0, resp_result = Some ''0x3e8''\<rparr>,
              \<lparr>resp_id = Some 1, resp_result = Some ''0x0''\<rparr>]"
  let ?rs' = "[\<lparr>resp_id = Some 1, resp_result = Some ''0x0''\<rparr>,
               \<lparr>resp_id = Some 0, resp_result = Some ''0x3e8''\<rparr>]"
  have d: "distinct (map resp_id (filter (matched TOKENS) ?rs))"
    by (simp add: matched_def TOKENS_nth)
  have m: "mset ?rs' = mset ?rs" by simp
  have a: "fst (call_rpc_batch (batch_reply (replies ?rs) (batch_payload TOKENS 4))
                  (Eth_call_batch (batch_payload TOKENS 4)) 3 1 []) = Some ?rs"
    by (simp add: call_rpc_batch_replies del: One_nat_def)
  have a': "fst (call_rpc_batch (batch_reply (replies ?rs') (batch_payload TOKENS 4))
                  (Eth_call_batch (batch_payload TOKENS 4)) 3 1 []) = Some ?rs'"
    by (simp add: call_rpc_batch_replies del: One_nat_def)
  have v: "fst (get_token_total_supplies TOKENS (replies ?rs) 4 [])
             = [(''USDC'', Some 1000), (''USDT'', Some 0)]"
    by (simp add: supplies_replies id_to_token_TOKENS TOKENS_nth TOKENS_nth_Suc decode_3e8
        decode_result_cases)
  have v': "fst (get_token_total_supplies TOKENS (replies ?rs') 4 [])
             = [(''USDT'', Some 0), (''USDC'', Some 1000)]"
    by (simp add: supplies_replies id_to_token_TOKENS TOKENS_nth TOKENS_nth_Suc decode_3e8
        decode_result_cases)
  from batch_reordering [OF distinct_TOKENS d m a a'] v v' show ?thesis by blast
qed

text \<open>
  C7 as stated fails: when two responses carry the id of the same request, the one that
  comes last in the list wins, so the two orders of the same two responses decode to
  different mappings.
\<close>

theorem batch_reordering_counterexample:
  "mset [\<lparr>resp_id = Some 0, resp_result = Some ''0x2''\<rparr>,
         \<lparr>resp_id = Some 0, resp_result = Some ''0x1''\<rparr>]
     = mset [\<lparr>resp_id = Some 0, resp_result = Some ''0x1''\<rparr>,
             \<lparr>resp_id = Some 0, resp_result = Some ''0x2''\<rparr>] \<and>
   fst (get_token_total_supplies TOKENS
          (replies [\<lparr>resp_id = Some 0, resp_result = Some ''0x1''\<rparr>,
                    \<lparr>resp_id = Some 0, resp_result = Some ''0x2''\<rparr>]) 4 [])
     = [(''USDC'', Some 2)] \<and>
   fst (get_token_total_supplies TOKENS
          (replies [\<lparr>resp_id = Some 0, resp_result = Some ''0x2''\<rparr>,
                    \<lparr>resp_id = Some 0, resp_result = Some ''0x1''\<rparr>]) 4 [])
     = [(''USDC'', Some 1)]"
  by (simp add: supplies_replies id_to_token_TOKENS TOKENS_nth decode_result_def py_int16_def
      skip_sign_def skip_prefix_def py_isspace_def digit_value_def)

section \<open>The attempts of the retry wrapper\<close>

lemma retries_loop_step:
  assumes "attempt < max_retries"
  shows "get_token_total_supplies_with_retries_loop tokens tr block_number max_retries delay
           attempt w
         = (if all_available (fst (get_token_total_supplies tokens tr block_number w))
            then (Some (fst (get_token_total_supplies tokens tr block_number w)),
                  snd (get_token_total_supplies tokens tr block_number w))
            else get_token_total_supplies_with_retries_loop tokens tr block_number max_retries
                   delay (attempt + 1)
                   (snd (get_token_total_supplies tokens tr block_number w) @ [Sleep delay]))"
proof -
  obtain supplies w' where g: "get_token_total_supplies tokens tr block_number w = (supplies, w')"
    by (cases "get_token_total_supplies tokens tr block_number w")
  show ?thesis
    by (simp add: retries_loop_unfold [OF assms g] g all_available_def)
qed

lemma attempt_world_shift:
  "attempt_world tokens tr block_number delay w (Suc k)
     = attempt_world tokens tr block_number delay
         (snd (get_token_total_supplies tokens tr block_number w) @ [Sleep delay]) k"
  by (induction k) simp_all

lemma retries_loop_attempts:
  assumes "nat (max_retries - attempt) = r"
  shows "((\<forall>k<r. \<not> all_available (fst (get_token_total_supplies tokens tr block_number
                                    (attempt_world tokens tr block_number delay w k))))
          \<longrightarrow> get_token_total_supplies_with_retries_loop tokens tr block_number max_retries delay
                attempt w
              = (None, attempt_world tokens tr block_number delay w r)) \<and>
         (\<forall>k<r. (\<forall>j<k. \<not> all_available (fst (get_token_total_supplies tokens tr block_number
                                          (attempt_world tokens tr block_number delay w j)))) \<and>
                 all_available (fst (get_token_total_supplies tokens tr block_number
                                  (attempt_world tokens tr block_number delay w k)))
          \<longrightarrow> get_token_total_supplies_with_retries_loop tokens tr block_number max_retries delay
                attempt w
              = (Some (fst (get_token_total_supplies tokens tr block_number
                              (attempt_world tokens tr block_number delay w k))),
                 snd (get_token_total_supplies tokens tr block_number
                        (attempt_world tokens tr block_number delay w k))))"
  using assms
proof (induction r arbitrary: attempt w)
  case 0
  then have "\<not> attempt < max_retries" by simp
  then show ?case by (simp add: retries_loop_exit)
next
  case (Suc r)
  then have lt: "attempt < max_retries" and r: "nat (max_retries - (attempt + 1)) = r"
    by simp_all
  let ?S = "\<lambda>w k. fst (get_token_total_supplies tokens tr block_number
                         (attempt_world tokens tr block_number delay w k))"
  let ?w1 = "snd (get_token_total_supplies tokens tr block_number w) @ [Sleep delay]"
  note step = retries_loop_step [OF lt, of tokens tr block_number delay w]
  have S0: "?S w 0 = fst (get_token_total_supplies tokens tr block_number w)" by simp
  show ?case
  proof (cases "all_available (fst (get_token_total_supplies tokens tr block_number w))")
    case True
    have a: "\<not> (\<forall>k<Suc r. \<not> all_available (?S w k))"
      using True S0 by (metis zero_less_Suc)
    have b: "k = 0" if "\<forall>j<k. \<not> all_available (?S w j)" for k
    proof (rule ccontr)
      assume "k \<noteq> 0"
      then have "0 < k" by simp
      with that have "\<not> all_available (?S w 0)" by blast
      with True S0 show False by simp
    qed
    show ?thesis
    proof (intro conjI allI impI)
      assume "\<forall>k<Suc r. \<not> all_available (?S w k)"
      with a show "get_token_total_supplies_with_retries_loop tokens tr block_number max_retries
                     delay attempt w
                   = (None, attempt_world tokens tr block_number delay w (Suc r))" by blast
    next
      fix k
      assume "k < Suc r"
        and h: "(\<forall>j<k. \<not> all_available (?S w j)) \<and> all_available (?S w k)"
      then have "k = 0" using b by blast
      then show "get_token_total_supplies_with_retries_loop tokens tr block_number max_retries
                   delay attempt w
                 = (Some (?S w k),
                    snd (get_token_total_supplies tokens tr block_number
                           (attempt_world tokens tr block_number delay w k)))"
        unfolding step using True by simp
    qed
  next
    case False
    have eq: "get_token_total_supplies_with_retries_loop tokens tr block_number max_retries delay
                attempt w
              = get_token_total_supplies_with_retries_loop tokens tr block_number max_retries
                  delay (attempt + 1) ?w1"
      unfolding step using False by simp
    note IH = Suc.IH [OF r, of ?w1]
    have sh: "attempt_world tokens tr block_number delay w (Suc k)
              = attempt_world tokens tr block_number delay ?w1 k" for k
      by (rule attempt_world_shift)
    show ?thesis
    proof (intro conjI allI impI)
      assume all: "\<forall>k<Suc r. \<not> all_available (?S w k)"
      have "\<forall>k<r. \<not> all_available (?S ?w1 k)"
      proof (intro allI impI)
        fix k assume "k < r"
        then have "Suc k < Suc r" by simp
        with all have "\<not> all_available (?S w (Suc k))" by blast
        from this [unfolded sh] show "\<not> all_available (?S ?w1 k)" .
      qed
      with IH have "get_token_total_supplies_with_retries_loop tokens tr block_number max_retries
                      delay (attempt + 1) ?w1
                    = (None, attempt_world tokens tr block_number delay ?w1 r)" by blast
      then show "get_token_total_supplies_with_retries_loop tokens tr block_number max_retries
                     delay attempt w
                   = (None, attempt_world tokens tr block_number delay w (Suc r))"
        by (simp only: eq sh)
    next
      fix k
      assume k: "k < Suc r"
        and h: "(\<forall>j<k. \<not> all_available (?S w j)) \<and> all_available (?S w k)"
      have "k \<noteq> 0"
      proof
        assume "k = 0"
        with h have "all_available (fst (get_token_total_supplies tokens tr block_number w))"
          by simp
        with False show False by simp
      qed
      then obtain k' where k': "k = Suc k'" by (cases k) simp_all
      with k have lt': "k' < r" by simp
      have "\<forall>j<k'. \<not> all_available (?S ?w1 j)"
      proof (intro allI impI)
        fix j assume "j < k'"
        then have "Suc j < k" using k' by simp
        with h have "\<not> all_available (?S w (Suc j))" by blast
        from this [unfolded sh] show "\<not> all_available (?S ?w1 j)" .
      qed
      moreover have "all_available (?S ?w1 k')"
      proof -
        from h have "all_available (?S w (Suc k'))" unfolding k' by blast
        from this [unfolded sh] show ?thesis .
      qed
      ultimately have "get_token_total_supplies_with_retries_loop tokens tr block_number
                         max_retries delay (attempt + 1) ?w1
                       = (Some (?S ?w1 k'),
                          snd (get_token_total_supplies tokens tr block_number
                                 (attempt_world tokens tr block_number delay ?w1 k')))"
        using IH lt' by blast
      then show "get_token_total_supplies_with_retries_loop tokens tr block_number max_retries
                   delay attempt w
                 = (Some (?S w k),
                    snd (get_token_total_supplies tokens tr block_number
                           (attempt_world tokens tr block_number delay w k)))"
        unfolding k' by (simp only: eq sh)
    qed
  qed
qed


text \<open>
  C3 (amended). The retry wrapper makes its attempts one after the other, each on the trace
  the one before left, with a sleep of \<open>delay\<close> after every attempt that fails its test.
  When each of the \<open>max_retries\<close> attempts decodes a mapping that is empty or has a
  \<open>None\<close> entry, the wrapper returns \<open>None\<close> after exactly these attempts: the last
  decoded mapping is dropped as a whole. When attempt \<open>k\<close> is the first to decode a
  mapping that is not empty and has no \<open>None\<close> entry, the wrapper returns that mapping at
  once, with the trace that attempt left. So whatever it returns is \<open>None\<close> or such a
  mapping.
\<close>

theorem retries_all_or_nothing:
  "((\<forall>k<nat max_retries.
       \<not> all_available (fst (get_token_total_supplies tokens tr block_number
                                (attempt_world tokens tr block_number delay w k))))
      \<longrightarrow> get_token_total_supplies_with_retries tokens tr block_number max_retries delay w
            = (None, attempt_world tokens tr block_number delay w (nat max_retries))) \<and>
   (\<forall>k<nat max_retries.
       (\<forall>j<k. \<not> all_available (fst (get_token_total_supplies tokens tr block_number
                                       (attempt_world tokens tr block_number delay w j)))) \<and>
       all_available (fst (get_token_total_supplies tokens tr block_number
                             (attempt_world tokens tr block_number delay w k)))
      \<longrightarrow> get_token_total_supplies_with_retries tokens tr block_number max_retries delay w
            = (Some (fst (get_token_total_supplies tokens tr block_number
                            (attempt_world tokens tr block_number delay w k))),
               snd (get_token_total_supplies tokens tr block_number
                      (attempt_world tokens tr block_number delay w k)))) \<and>
   (fst (get_token_total_supplies_with_retries tokens tr block_number max_retries delay w) = None \<or>
    (\<exists>supplies h.
       fst (get_token_total_supplies_with_retries tokens tr block_number max_retries delay w)
         = Some supplies \<and>
       supplies = fst (get_token_total_supplies tokens tr block_number h) \<and>
       supplies \<noteq> [] \<and> None \<notin> snd ` set supplies))"
proof -
  have r: "nat (max_retries - 0) = nat max_retries" by simp
  note a = retries_loop_attempts [OF r, of tokens tr block_number delay w]
  have c: "fst (get_token_total_supplies_with_retries tokens tr block_number max_retries delay w)
             = None \<or>
    (\<exists>supplies h.
       fst (get_token_total_supplies_with_retries tokens tr block_number max_retries delay w)
         = Some supplies \<and>
       supplies = fst (get_token_total_supplies tokens tr block_number h) \<and>
       supplies \<noteq> [] \<and> None \<notin> snd ` set supplies)"
    unfolding get_token_total_supplies_with_retries_def by (rule retries_loop_result)
  show ?thesis
    unfolding get_token_total_supplies_with_retries_def
    using a c [unfolded get_token_total_supplies_with_retries_def] by (intro conjI) blast+
qed

lemma post_count_append: "post_count (w @ v) = post_count w + post_count v"
  by (simp add: post_count_def)

lemma flaky_supplies:
  "get_token_total_supplies TOKENS flaky block_number w
     = (if post_count w < 3 then [(''USDC'', None)] else [(''USDC'', Some 1)],
        w @ [Call (Eth_call_batch (batch_payload TOKENS block_number)),
             Post (Eth_call_batch (batch_payload TOKENS block_number))])"
proof -
  let ?p = "batch_payload TOKENS block_number"
  let ?rs = "if post_count w < 3 then [\<lparr>resp_id = Some 0, resp_result = Some ''zz''\<rparr>]
             else [\<lparr>resp_id = Some 0, resp_result = Some ''0x1''\<rparr>]"
  have "batch_reply flaky ?p (w @ [Call (Eth_call_batch ?p)]) = Some ?rs"
    by (simp add: flaky_def post_count_def)
  then have call: "call_rpc_batch (batch_reply flaky ?p) (Eth_call_batch ?p) 3 1 w
                   = (Some ?rs, w @ [Call (Eth_call_batch ?p), Post (Eth_call_batch ?p)])"
    by (intro call_rpc_batch_success) simp_all
  have zz: "decode_result (Some ''zz'') = None" and one: "decode_result (Some ''0x1'') = Some 1"
    by (simp_all add: decode_result_def py_int16_def skip_sign_def skip_prefix_def py_isspace_def
        digit_value_def)
  have "decode_responses (id_to_token TOKENS) ?rs []
        = (if post_count w < 3 then [(''USDC'', None)] else [(''USDC'', Some 1)])"
    by (simp add: id_to_token_TOKENS TOKENS_nth zz one)
  then show ?thesis
    by (simp only: get_token_total_supplies_def Let_def call prod.case option.case)
qed

lemma flaky_attempt_world:
  "post_count (attempt_world TOKENS flaky block_number delay [] k) = k"
proof (induction k)
  case 0
  show ?case by (simp add: post_count_def)
next
  case (Suc k)
  then show ?case by (simp add: flaky_supplies post_count_append) (simp add: post_count_def)
qed

lemma flaky_attempt:
  "fst (get_token_total_supplies TOKENS flaky block_number
          (attempt_world TOKENS flaky block_number delay [] k))
     = (if k < 3 then [(''USDC'', None)] else [(''USDC'', Some 1)])"
  by (simp only: flaky_supplies flaky_attempt_world fst_conv)

theorem retries_all_or_nothing_witness:
  "get_token_total_supplies_with_retries TOKENS flaky 4 3 1 []
     = (None, attempt_world TOKENS flaky 4 1 [] 3) \<and>
   post_count (attempt_world TOKENS flaky 4 1 [] 3) = 3 \<and>
   fst (get_token_total_supplies_with_retries TOKENS flaky 4 4 1 []) = Some [(''USDC'', Some 1)]"
proof -
  have fail: "\<forall>k<nat 3. \<not> all_available (fst (get_token_total_supplies TOKENS flaky 4
                                 (attempt_world TOKENS flaky 4 1 [] k)))"
    by (simp add: flaky_attempt all_available_def)
  have first: "(\<forall>j<3. \<not> all_available (fst (get_token_total_supplies TOKENS flaky 4
                                 (attempt_world TOKENS flaky 4 1 [] j)))) \<and>
               all_available (fst (get_token_total_supplies TOKENS flaky 4
                                 (attempt_world TOKENS flaky 4 1 [] 3)))"
    by (simp add: flaky_attempt all_available_def)
  have three: "(3::nat) < nat 4" by simp
  from retries_all_or_nothing [of 3 TOKENS flaky 4 1 "[]"] fail
  have a: "get_token_total_supplies_with_retries TOKENS flaky 4 3 1 []
             = (None, attempt_world TOKENS flaky 4 1 [] (nat 3))" by blast
  from retries_all_or_nothing [of 4 TOKENS flaky 4 1 "[]"] first three
  have "get_token_total_supplies_with_retries TOKENS flaky 4 4 1 []
          = (Some (fst (get_token_total_supplies TOKENS flaky 4
                          (attempt_world TOKENS flaky 4 1 [] 3))),
             snd (get_token_total_supplies TOKENS flaky 4
                    (attempt_world TOKENS flaky 4 1 [] 3)))" by blast
  then have b: "fst (get_token_total_supplies_with_retries TOKENS flaky 4 4 1 [])
                  = Some [(''USDC'', Some 1)]"
    by (simp add: flaky_attempt)
  have c: "post_count (attempt_world TOKENS flaky 4 1 [] 3) = 3" by (rule flaky_attempt_world)
  from a b c show ?thesis by simp
qed

end
